theory Spec2Isabelle
  imports Main "HOL-Library.Multiset"
begin

section \<open>Buzz-Word Bingo: the board model and the session state\<close>

text \<open>
  The embedding follows the two classes of the program that carry game state:
  \<open>BingoBoard\<close> (phrase grid, marked grid, generation, toggling, win detection) and the
  state fields of \<open>BingoUI\<close> (\<open>bingo_active\<close>, \<open>winning_lines\<close>,
  \<open>continue_button_enabled\<close>). Widgets, colours and animation are not modelled.

  Python raises; the model returns the exception as a value. A method that mutates
  \<open>self\<close> returns the pair of the exception raised (\<open>None\<close> when it returns normally)
  and the object's state at that moment, since an exception does not roll back the
  assignments made before it.
\<close>

subsection \<open>Python lists\<close>

datatype error = ValueError | IndexError

text \<open>
  \<open>xs[i]\<close>: an index from \<open>-len(xs)\<close> to \<open>-1\<close> counts from the end, an index outside
  \<open>-len(xs) .. len(xs) - 1\<close> raises IndexError. \<open>py_index\<close> is the position addressed.
\<close>

definition py_index :: "'a list \<Rightarrow> int \<Rightarrow> error + nat" where
  "py_index xs i =
     (if 0 \<le> i \<and> i < int (length xs) then Inr (nat i)
      else if i < 0 \<and> - int (length xs) \<le> i then Inr (nat (int (length xs) + i))
      else Inl IndexError)"

definition py_getitem :: "'a list \<Rightarrow> int \<Rightarrow> error + 'a" where
  "py_getitem xs i = (case py_index xs i of Inl e \<Rightarrow> Inl e | Inr j \<Rightarrow> Inr (xs ! j))"

text \<open>\<open>m[row][col]\<close> and \<open>m[row][col] = v\<close> on a list of lists whose rows are separate objects.\<close>

definition get_cell :: "'a list list \<Rightarrow> int \<Rightarrow> int \<Rightarrow> error + 'a" where
  "get_cell m row col =
     (case py_getitem m row of Inl e \<Rightarrow> Inl e | Inr r \<Rightarrow> py_getitem r col)"

definition set_cell :: "'a list list \<Rightarrow> int \<Rightarrow> int \<Rightarrow> 'a \<Rightarrow> error + 'a list list" where
  "set_cell m row col v =
     (case py_index m row of
        Inl e \<Rightarrow> Inl e
      | Inr i \<Rightarrow>
          (case py_index (m ! i) col of
             Inl e \<Rightarrow> Inl e
           | Inr j \<Rightarrow> Inr (m[i := (m ! i)[j := v]])))"

text \<open>\<open>range(n)\<close>, and \<open>all(...)\<close> over a generator: it stops at the first false element,
  so an element after it is never evaluated and cannot raise.\<close>

definition py_range :: "int \<Rightarrow> int list" where
  "py_range n = [0..n - 1]"

fun py_all :: "(error + bool) list \<Rightarrow> error + bool" where
  "py_all [] = Inr True"
| "py_all (x # xs) =
     (case x of Inl e \<Rightarrow> Inl e | Inr v \<Rightarrow> if v then py_all xs else Inr False)"

subsection \<open>random.sample\<close>

text \<open>
  \<open>random.sample(population, k)\<close> is library code. It raises ValueError unless
  \<open>0 \<le> k \<le> len(population)\<close>, and otherwise returns \<open>k\<close> elements taken at \<open>k\<close> different
  positions of the population, in selection order. The model is the library's selection
  from a shrinking pool, with the random draws as an argument: \<open>rng i\<close> is the \<open>i\<close>-th
  raw draw, reduced to the size of the pool that is left.
\<close>

fun sample_from :: "(nat \<Rightarrow> nat) \<Rightarrow> 'a list \<Rightarrow> nat \<Rightarrow> 'a list" where
  "sample_from rng pool 0 = []"
| "sample_from rng pool (Suc k) =
     (let j = rng 0 mod length pool
      in pool ! j # sample_from (\<lambda>i. rng (Suc i)) (butlast (pool[j := last pool])) k)"

definition random_sample :: "(nat \<Rightarrow> nat) \<Rightarrow> 'a list \<Rightarrow> int \<Rightarrow> error + 'a list" where
  "random_sample rng population k =
     (if 0 \<le> k \<and> k \<le> int (length population)
      then Inr (sample_from rng population (nat k))
      else Inl ValueError)"

subsection \<open>class BingoBoard\<close>

text \<open>
  \<open>self.size = 5\<close> and \<open>self.free_space_pos = (2, 2)\<close> are assigned in \<open>__init__\<close> and
  never again; they are constants here.
\<close>

record BingoBoard =
  buzzwords :: "string list"
  board :: "string list list"
  marked :: "bool list list"

definition board_size :: int where
  "board_size = 5"

definition free_space_pos :: "int \<times> int" where
  "free_space_pos = (2, 2)"

text \<open>The inner and the outer loop of \<open>generate_board\<close>; \<open>idx\<close> walks through the sample.\<close>

fun fill_row :: "string list \<Rightarrow> int \<Rightarrow> int list \<Rightarrow> string list \<Rightarrow> int
    \<Rightarrow> error + (string list \<times> int)" where
  "fill_row selected row [] board_row idx = Inr (board_row, idx)"
| "fill_row selected row (col # cols) board_row idx =
     (if (row, col) = free_space_pos
      then fill_row selected row cols (board_row @ [''FREE SPACE'']) idx
      else (case py_getitem selected idx of
              Inl e \<Rightarrow> Inl e
            | Inr w \<Rightarrow> fill_row selected row cols (board_row @ [w]) (idx + 1)))"

fun fill_board :: "string list \<Rightarrow> int list \<Rightarrow> string list list \<Rightarrow> int
    \<Rightarrow> error option \<times> string list list" where
  "fill_board selected [] rows idx = (None, rows)"
| "fill_board selected (row # rest) rows idx =
     (case fill_row selected row (py_range board_size) [] idx of
        Inl e \<Rightarrow> (Some e, rows)
      | Inr (board_row, idx') \<Rightarrow> fill_board selected rest (rows @ [board_row]) idx')"

text \<open>\<open>[[False] * self.size for _ in range(self.size)]\<close>: five separate rows.\<close>

definition blank_marks :: "bool list list" where
  "blank_marks = map (\<lambda>_. replicate (nat board_size) False) (py_range board_size)"

text \<open>The two statements that initialise the marked grid, shared by \<open>generate_board\<close>
  and \<open>reset_marks\<close>.\<close>

definition init_marks :: "BingoBoard \<Rightarrow> error option \<times> BingoBoard" where
  "init_marks b =
     (case set_cell blank_marks (fst free_space_pos) (snd free_space_pos) True of
        Inl e \<Rightarrow> (Some e, b\<lparr>marked := blank_marks\<rparr>)
      | Inr m \<Rightarrow> (None, b\<lparr>marked := m\<rparr>))"

definition generate_board :: "(nat \<Rightarrow> nat) \<Rightarrow> BingoBoard \<Rightarrow> error option \<times> BingoBoard" where
  "generate_board rng b =
     (case random_sample rng (buzzwords b) 24 of
        Inl e \<Rightarrow> (Some e, b)
      | Inr selected \<Rightarrow>
          (case fill_board selected (py_range board_size) [] 0 of
             (Some e, rows) \<Rightarrow> (Some e, b\<lparr>board := rows\<rparr>)
           | (None, rows) \<Rightarrow> init_marks (b\<lparr>board := rows\<rparr>)))"

text \<open>\<open>BingoBoard(buzzwords)\<close>: the constructor returns an object only when
  \<open>generate_board\<close> returns.\<close>

definition new_BingoBoard :: "(nat \<Rightarrow> nat) \<Rightarrow> string list \<Rightarrow> error + BingoBoard" where
  "new_BingoBoard rng words =
     (case generate_board rng \<lparr>buzzwords = words, board = [], marked = []\<rparr> of
        (Some e, _) \<Rightarrow> Inl e
      | (None, b) \<Rightarrow> Inr b)"

text \<open>The right-hand side \<open>not self.marked[row][col]\<close> is evaluated before the store.\<close>

definition toggle_mark :: "BingoBoard \<Rightarrow> int \<Rightarrow> int \<Rightarrow> error option \<times> BingoBoard" where
  "toggle_mark b row col =
     (if (row, col) \<noteq> free_space_pos
      then (case get_cell (marked b) row col of
              Inl e \<Rightarrow> (Some e, b)
            | Inr v \<Rightarrow>
                (case set_cell (marked b) row col (\<not> v) of
                   Inl e \<Rightarrow> (Some e, b)
                 | Inr m \<Rightarrow> (None, b\<lparr>marked := m\<rparr>)))
      else (None, b))"

definition reset_marks :: "BingoBoard \<Rightarrow> error option \<times> BingoBoard" where
  "reset_marks b = init_marks b"

text \<open>The two \<open>for\<close> loops of \<open>check_bingo\<close> have the same shape: \<open>scan_lines\<close> appends
  \<open>(kind, i)\<close> for each index whose test holds.\<close>

fun scan_lines :: "string \<Rightarrow> (int \<Rightarrow> error + bool) \<Rightarrow> int list \<Rightarrow> (string \<times> int) list
    \<Rightarrow> error + (string \<times> int) list" where
  "scan_lines kind test [] winning = Inr winning"
| "scan_lines kind test (i # rest) winning =
     (case test i of
        Inl e \<Rightarrow> Inl e
      | Inr w \<Rightarrow> scan_lines kind test rest (if w then winning @ [(kind, i)] else winning))"

definition check_bingo :: "BingoBoard \<Rightarrow> error + (string \<times> int) list" where
  "check_bingo b =
     (case scan_lines ''row''
             (\<lambda>row. py_all (map (\<lambda>col. get_cell (marked b) row col) (py_range board_size)))
             (py_range board_size) [] of
        Inl e \<Rightarrow> Inl e
      | Inr rows_won \<Rightarrow>
     (case scan_lines ''col''
             (\<lambda>col. py_all (map (\<lambda>row. get_cell (marked b) row col) (py_range board_size)))
             (py_range board_size) rows_won of
        Inl e \<Rightarrow> Inl e
      | Inr cols_won \<Rightarrow>
     (case py_all (map (\<lambda>i. get_cell (marked b) i i) (py_range board_size)) of
        Inl e \<Rightarrow> Inl e
      | Inr d0 \<Rightarrow>
     (case py_all (map (\<lambda>i. get_cell (marked b) i (board_size - 1 - i))
                     (py_range board_size)) of
        Inl e \<Rightarrow> Inl e
      | Inr d1 \<Rightarrow>
          Inr ((if d0 then cols_won @ [(''diag'', 0)] else cols_won)
               @ (if d1 then [(''diag'', 1)] else []))))))"

subsection \<open>class BingoUI: the session state\<close>

text \<open>
  Of \<open>BingoUI\<close> the model keeps the board object, the two flags and the list of winning
  lines, the visibility of the banner and of the confetti canvas (\<open>place\<close> and
  \<open>place_forget\<close>), and \<open>celebrations\<close>, the number of times the celebration
  (\<open>launch_confetti\<close> and \<open>play_celebration_sound\<close>) has run. Tile widgets are left out;
  of \<open>update_display\<close>, which only writes to them, the model keeps the reads of the
  marked grid, since a read can raise.
\<close>

record BingoUI =
  ui_board :: BingoBoard
  bingo_active :: bool
  winning_lines :: "(string \<times> int) list"
  continue_button_enabled :: bool
  banner_visible :: bool
  confetti_visible :: bool
  celebrations :: nat

text \<open>One iteration of the loop of \<open>is_winning_tile\<close>: is the tile on the line?\<close>

definition on_line :: "string \<times> int \<Rightarrow> int \<Rightarrow> int \<Rightarrow> bool" where
  "on_line line row col =
     (case line of (line_type, index) \<Rightarrow>
        if line_type = ''row'' \<and> row = index then True
        else if line_type = ''col'' \<and> col = index then True
        else if line_type = ''diag'' \<and> index = 0 \<and> row = col then True
        else if line_type = ''diag'' \<and> index = 1 \<and> row = 4 - col then True
        else False)"

definition is_winning_tile :: "BingoUI \<Rightarrow> int \<Rightarrow> int \<Rightarrow> bool" where
  "is_winning_tile ui row col =
     (if winning_lines ui = [] then False
      else list_ex (\<lambda>line. on_line line row col) (winning_lines ui))"

definition dismiss_bingo :: "BingoUI \<Rightarrow> BingoUI" where
  "dismiss_bingo ui =
     (if \<not> continue_button_enabled ui then ui
      else ui\<lparr>banner_visible := False, confetti_visible := False,
              continue_button_enabled := False\<rparr>)"

fun first_error :: "(error + 'a) list \<Rightarrow> error option" where
  "first_error [] = None"
| "first_error (x # xs) = (case x of Inl e \<Rightarrow> Some e | Inr v \<Rightarrow> first_error xs)"

definition update_display :: "BingoUI \<Rightarrow> error option" where
  "update_display ui =
     first_error
       (concat (map (\<lambda>row. map (\<lambda>col. get_cell (marked (ui_board ui)) row col) (py_range 5))
                    (py_range 5)))"

definition check_and_show_bingo :: "BingoUI \<Rightarrow> error option \<times> BingoUI" where
  "check_and_show_bingo ui =
     (case check_bingo (ui_board ui) of
        Inl e \<Rightarrow> (Some e, ui)
      | Inr lines \<Rightarrow>
          (let ui1 = ui\<lparr>winning_lines := lines\<rparr>
           in if winning_lines ui1 \<noteq> [] \<and> \<not> bingo_active ui1
              then (let ui2 = ui1\<lparr>bingo_active := True, confetti_visible := True,
                                   banner_visible := True, continue_button_enabled := True,
                                   celebrations := Suc (celebrations ui1)\<rparr>
                    in (update_display ui2, ui2))
              else if winning_lines ui1 = [] \<and> bingo_active ui1
              then (None, dismiss_bingo ui1)
              else (None, ui1)))"

definition on_tile_click :: "BingoUI \<Rightarrow> int \<Rightarrow> int \<Rightarrow> error option \<times> BingoUI" where
  "on_tile_click ui row col =
     (case toggle_mark (ui_board ui) row col of
        (Some e, b) \<Rightarrow> (Some e, ui\<lparr>ui_board := b\<rparr>)
      | (None, b) \<Rightarrow>
          (let ui1 = ui\<lparr>ui_board := b\<rparr>
           in case update_display ui1 of
                Some e \<Rightarrow> (Some e, ui1)
              | None \<Rightarrow> check_and_show_bingo ui1))"

definition clear_celebration :: "BingoUI \<Rightarrow> BingoUI" where
  "clear_celebration ui =
     ui\<lparr>bingo_active := False, winning_lines := [], banner_visible := False,
        confetti_visible := False, continue_button_enabled := False\<rparr>"

definition new_board :: "(nat \<Rightarrow> nat) \<Rightarrow> BingoUI \<Rightarrow> error option \<times> BingoUI" where
  "new_board rng ui =
     (case generate_board rng (ui_board ui) of
        (Some e, b) \<Rightarrow> (Some e, ui\<lparr>ui_board := b\<rparr>)
      | (None, b) \<Rightarrow>
          (let ui1 = clear_celebration (ui\<lparr>ui_board := b\<rparr>) in (update_display ui1, ui1)))"

definition ui_reset_marks :: "BingoUI \<Rightarrow> error option \<times> BingoUI" where
  "ui_reset_marks ui =
     (case reset_marks (ui_board ui) of
        (Some e, b) \<Rightarrow> (Some e, ui\<lparr>ui_board := b\<rparr>)
      | (None, b) \<Rightarrow>
          (let ui1 = clear_celebration (ui\<lparr>ui_board := b\<rparr>) in (update_display ui1, ui1)))"

text \<open>
  The callbacks a player can trigger between two resets: a click on a tile and a click on
  the continue button. A run of them; an exception ends the run, as it ends the callback.
\<close>

datatype ui_event = Click int int | Dismiss

fun handle_event :: "BingoUI \<Rightarrow> ui_event \<Rightarrow> error option \<times> BingoUI" where
  "handle_event ui (Click row col) = on_tile_click ui row col"
| "handle_event ui Dismiss = (None, dismiss_bingo ui)"

fun run_events :: "BingoUI \<Rightarrow> ui_event list \<Rightarrow> error option \<times> BingoUI" where
  "run_events ui [] = (None, ui)"
| "run_events ui (ev # rest) =
     (case handle_event ui ev of
        (Some e, ui') \<Rightarrow> (Some e, ui')
      | (None, ui') \<Rightarrow> run_events ui' rest)"

subsection \<open>The vocabulary of the specification\<close>

text \<open>
  The session phase of the specification, read off the two flags: no win seen yet;
  banner up and the continue button enabled; dismissed, with the win still recorded.
\<close>

datatype phase = Idle | Celebrating | Acknowledged

definition phase_of :: "BingoUI \<Rightarrow> phase" where
  "phase_of ui =
     (if \<not> bingo_active ui then Idle
      else if continue_button_enabled ui then Celebrating
      else Acknowledged)"

text \<open>The twelve line descriptors, in the order in which \<open>check_bingo\<close> visits them.\<close>

definition all_lines :: "(string \<times> int) list" where
  "all_lines =
     map (Pair ''row'') (py_range board_size) @ map (Pair ''col'') (py_range board_size)
     @ [(''diag'', 0), (''diag'', 1)]"

text \<open>All cells of a line are marked; which cells a line has is \<open>on_line\<close>.\<close>

definition line_marked :: "bool list list \<Rightarrow> string \<times> int \<Rightarrow> bool" where
  "line_marked m line =
     list_all (\<lambda>row. list_all (\<lambda>col. on_line line row col \<longrightarrow> get_cell m row col = Inr True)
                        (py_range board_size))
              (py_range board_size)"

text \<open>A validly constructed board has a marked grid of five rows of five flags.\<close>

definition valid_marks :: "bool list list \<Rightarrow> bool" where
  "valid_marks m = (length m = 5 \<and> list_all (\<lambda>r. length r = 5) m)"

definition center_marked :: "BingoBoard \<Rightarrow> bool" where
  "center_marked b = (get_cell (marked b) 2 2 = Inr True)"

text \<open>The cells of a grid in row-major order without the center.\<close>

definition non_center_cells :: "'a list list \<Rightarrow> 'a list" where
  "non_center_cells g =
     concat (map (\<lambda>row. map (\<lambda>col. g ! nat row ! nat col)
                         (filter (\<lambda>col. (row, col) \<noteq> free_space_pos) (py_range board_size)))
                 (py_range board_size))"

text \<open>Row, column and diagonal tests on a valid grid, where no read can raise.\<close>

definition row_full :: "bool list list \<Rightarrow> int \<Rightarrow> bool" where
  "row_full m row = list_all (\<lambda>col. m ! nat row ! nat col) [0, 1, 2, 3, 4]"

definition col_full :: "bool list list \<Rightarrow> int \<Rightarrow> bool" where
  "col_full m col = list_all (\<lambda>row. m ! nat row ! nat col) [0, 1, 2, 3, 4]"

definition diag_full :: "bool list list \<Rightarrow> int \<Rightarrow> bool" where
  "diag_full m k = list_all (\<lambda>i. m ! nat i ! nat (if k = 0 then i else 4 - i)) [0, 1, 2, 3, 4]"

subsection \<open>Concrete boards\<close>

text \<open>The first 26 phrases of the list in \<open>main\<close>, a fixed sequence of draws, and the board
  the constructor builds from them.\<close>

definition demo_pool :: "string list" where
  "demo_pool =
     [''Circle Back'', ''Low Hanging Fruit'', ''Take This Offline'',
      ''Deep Dive'', ''Synergy'', ''Bandwidth'',
      ''Action Items'', ''Touch Base'', ''Moving Forward'',
      ''Thought Leadership'', ''Quick Win'', ''Single Pane of Glass'',
      ''Customer Centric'', ''Best Practices'', ''Game Changer'',
      ''At Scale'', ''Leverage'', ''Alignment'',
      ''Deliverables'', ''Boil the Ocean'', ''Run It Up the Flagpole'',
      ''North Star'', ''Value Add'', ''Paradigm Shift'',
      ''Stakeholder Buy In'', ''Roadmap'']"

definition demo_rng :: "nat \<Rightarrow> nat" where
  "demo_rng i = 7 * i + 3"

definition demo_board :: BingoBoard where
  "demo_board = snd (generate_board demo_rng \<lparr>buzzwords = demo_pool, board = [], marked = []\<rparr>)"

text \<open>The state of a board after a list of toggles, whether or not one of them raised.\<close>

fun toggle_all :: "BingoBoard \<Rightarrow> (int \<times> int) list \<Rightarrow> BingoBoard" where
  "toggle_all b [] = b"
| "toggle_all b ((row, col) # rest) = toggle_all (snd (toggle_mark b row col)) rest"

definition both_diagonals :: BingoBoard where
  "both_diagonals =
     toggle_all demo_board [(0, 0), (1, 1), (3, 3), (4, 4), (0, 4), (1, 3), (3, 1), (4, 0)]"

text \<open>The marked grid in which only the center cell is marked.\<close>

definition center_only :: "bool list list" where
  "center_only =
     [[False, False, False, False, False],
      [False, False, False, False, False],
      [False, False, True, False, False],
      [False, False, False, False, False],
      [False, False, False, False, False]]"

text \<open>The demo board with every cell marked.\<close>

definition full_house :: BingoBoard where
  "full_house =
     toggle_all demo_board
       [(0, 0), (0, 1), (0, 2), (0, 3), (0, 4), (1, 0), (1, 1), (1, 2), (1, 3), (1, 4),
        (2, 0), (2, 1), (2, 3), (2, 4), (3, 0), (3, 1), (3, 2), (3, 3), (3, 4),
        (4, 0), (4, 1), (4, 2), (4, 3), (4, 4)]"

text \<open>The demo board with row 2 and column 0 marked.\<close>

definition row_and_column :: BingoBoard where
  "row_and_column =
     toggle_all demo_board [(2, 0), (2, 1), (2, 3), (2, 4), (0, 0), (1, 0), (3, 0), (4, 0)]"

subsection \<open>Sequences of board operations\<close>

text \<open>
  The operations of \<open>BingoBoard\<close> as a caller can issue them, and the state of the object
  after each (also when the call raised). \<open>check_bingo\<close> only reads.
\<close>

datatype board_op = Generate "nat \<Rightarrow> nat" | Toggle int int | Reset | Check

fun apply_op :: "BingoBoard \<Rightarrow> board_op \<Rightarrow> BingoBoard" where
  "apply_op b (Generate rng) = snd (generate_board rng b)"
| "apply_op b (Toggle row col) = snd (toggle_mark b row col)"
| "apply_op b Reset = snd (reset_marks b)"
| "apply_op b Check = b"

fun run_ops :: "BingoBoard \<Rightarrow> board_op list \<Rightarrow> BingoBoard" where
  "run_ops b [] = b"
| "run_ops b (op # ops) = run_ops (apply_op b op) ops"


text \<open>Row-major placement of a sample of 24 phrases around the center label.\<close>

definition layout :: "string list \<Rightarrow> string list list" where
  "layout s =
     [[s ! 0, s ! 1, s ! 2, s ! 3, s ! 4],
      [s ! 5, s ! 6, s ! 7, s ! 8, s ! 9],
      [s ! 10, s ! 11, ''FREE SPACE'', s ! 12, s ! 13],
      [s ! 14, s ! 15, s ! 16, s ! 17, s ! 18],
      [s ! 19, s ! 20, s ! 21, s ! 22, s ! 23]]"

subsection \<open>Sessions\<close>

text \<open>\<open>BingoUI(root, buzzwords)\<close>: the state after \<open>__init__\<close>, which builds the board,
  sets the flags (\<open>continue_button_enabled\<close> in \<open>setup_ui\<close>) and calls
  \<open>update_display\<close>.\<close>

definition new_BingoUI :: "(nat \<Rightarrow> nat) \<Rightarrow> string list \<Rightarrow> error + BingoUI" where
  "new_BingoUI rng words =
     (case new_BingoBoard rng words of
        Inl e \<Rightarrow> Inl e
      | Inr b \<Rightarrow>
          (let ui = \<lparr>ui_board = b, bingo_active = False, winning_lines = [],
                     continue_button_enabled = False, banner_visible = False,
                     confetti_visible = False, celebrations = 0\<rparr>
           in case update_display ui of Some e \<Rightarrow> Inl e | None \<Rightarrow> Inr ui))"

text \<open>A tile click comes from one of the 25 tiles, whose coordinates are in \<open>0..4\<close>.\<close>

fun tile_event :: "ui_event \<Rightarrow> bool" where
  "tile_event (Click row col) = (0 \<le> row \<and> row < 5 \<and> 0 \<le> col \<and> col < 5)"
| "tile_event Dismiss = True"

text \<open>After the first \<open>k\<close> events of a run the board has a complete line.\<close>

definition won_after :: "BingoUI \<Rightarrow> ui_event list \<Rightarrow> nat \<Rightarrow> bool" where
  "won_after ui evs k =
     (case check_bingo (ui_board (snd (run_events ui (take k evs)))) of
        Inl e \<Rightarrow> False
      | Inr lines \<Rightarrow> lines \<noteq> [])"

text \<open>A complete line was there after one of the events \<open>1..n\<close> of a run.\<close>

definition won_by :: "BingoUI \<Rightarrow> ui_event list \<Rightarrow> nat \<Rightarrow> bool" where
  "won_by ui evs n = list_ex (won_after ui evs) [1..<Suc n]"

text \<open>The session on the demo board, and a run that completes row 2, dismisses the
  banner, takes a mark of row 2 back, then completes column 0 and row 2 again.\<close>

definition demo_ui :: BingoUI where
  "demo_ui =
     \<lparr>ui_board = demo_board, bingo_active = False, winning_lines = [],
      continue_button_enabled = False, banner_visible = False,
      confetti_visible = False, celebrations = 0\<rparr>"

definition demo_events :: "ui_event list" where
  "demo_events =
     [Click 2 0, Click 2 1, Click 2 2, Click 2 3, Click 2 4, Dismiss, Click 2 4, Click 0 0,
      Click 1 0, Click 3 0, Click 4 0, Click 2 4]"

section \<open>Properties\<close>

subsection \<open>Reading a valid grid\<close>

lemma py_range_5: "py_range board_size = [0, 1, 2, 3, 4]"
  by (simp add: py_range_def board_size_def upto_rec1)

lemma valid_marks_row: "valid_marks m \<Longrightarrow> i < 5 \<Longrightarrow> length (m ! i) = 5"
  by (simp add: valid_marks_def list_all_length)

lemma get_cell_valid:
  assumes "valid_marks m" "0 \<le> row" "row < 5" "0 \<le> col" "col < 5"
  shows "get_cell m row col = Inr (m ! nat row ! nat col)"
proof -
  have len: "length m = 5" using assms(1) by (simp add: valid_marks_def)
  have r: "py_getitem m row = Inr (m ! nat row)"
    using assms(2,3) len by (simp add: py_getitem_def py_index_def)
  have "nat row < 5" using assms(2,3) by simp
  then have "length (m ! nat row) = 5" using assms(1) by (rule valid_marks_row[rotated])
  then have "py_getitem (m ! nat row) col = Inr (m ! nat row ! nat col)"
    using assms(4,5) by (simp add: py_getitem_def py_index_def)
  with r show ?thesis by (simp add: get_cell_def)
qed

subsection \<open>The win detector on a valid grid\<close>

lemma py_all_Inr:
  "\<forall>x \<in> set xs. f x = Inr (P x) \<Longrightarrow> py_all (map f xs) = Inr (list_all P xs)"
  by (induction xs) auto

lemma scan_lines_Inr:
  "\<forall>i \<in> set xs. test i = Inr (P i) \<Longrightarrow>
   scan_lines kind test xs winning = Inr (winning @ map (Pair kind) (filter P xs))"
  by (induction xs arbitrary: winning) auto

lemma check_bingo_valid:
  assumes v: "valid_marks (marked b)"
  shows "check_bingo b =
    Inr (map (Pair ''row'') (filter (row_full (marked b)) [0, 1, 2, 3, 4])
         @ map (Pair ''col'') (filter (col_full (marked b)) [0, 1, 2, 3, 4])
         @ (if diag_full (marked b) 0 then [(''diag'', 0)] else [])
         @ (if diag_full (marked b) 1 then [(''diag'', 1)] else []))"
proof -
  let ?m = "marked b"
  let ?R = "[0, 1, 2, 3, 4] :: int list"
  have cell: "\<And>r c. r \<in> set ?R \<Longrightarrow> c \<in> set ?R \<Longrightarrow> get_cell ?m r c = Inr (?m ! nat r ! nat c)"
    using get_cell_valid[OF v] by auto
  have rows: "\<forall>row \<in> set ?R. py_all (map (\<lambda>col. get_cell ?m row col) ?R) = Inr (row_full ?m row)"
    unfolding row_full_def using cell by (intro ballI py_all_Inr) blast
  have cols: "\<forall>col \<in> set ?R. py_all (map (\<lambda>row. get_cell ?m row col) ?R) = Inr (col_full ?m col)"
    unfolding col_full_def using cell by (intro ballI py_all_Inr) blast
  have d0: "py_all (map (\<lambda>i. get_cell ?m i i) ?R) = Inr (diag_full ?m 0)"
    unfolding diag_full_def using cell by (intro py_all_Inr) simp
  have d1: "py_all (map (\<lambda>i. get_cell ?m i (board_size - 1 - i)) ?R) = Inr (diag_full ?m 1)"
    unfolding diag_full_def board_size_def using cell by (intro py_all_Inr) auto
  show ?thesis
    unfolding check_bingo_def py_range_5
    by (simp only: scan_lines_Inr[OF rows] scan_lines_Inr[OF cols] d0 d1 sum.case append_Nil
        append_assoc split: if_split) simp
qed

subsection \<open>Lines and their cells\<close>

lemma on_line_row: "on_line (''row'', r) row col = (row = r)"
  by (simp add: on_line_def)

lemma on_line_col: "on_line (''col'', c) row col = (col = c)"
  by (simp add: on_line_def)

lemma on_line_diag0: "on_line (''diag'', 0) row col = (row = col)"
  by (simp add: on_line_def)

lemma on_line_diag1: "on_line (''diag'', 1) row col = (row = 4 - col)"
  by (simp add: on_line_def)

lemma line_marked_cells:
  assumes v: "valid_marks m"
  shows "line_marked m line =
     list_all (\<lambda>row. list_all (\<lambda>col. on_line line row col \<longrightarrow> m ! nat row ! nat col)
        [0, 1, 2, 3, 4]) [0, 1, 2, 3, 4]"
proof -
  have "\<And>r c. r \<in> set [0, 1, 2, 3, 4] \<Longrightarrow> c \<in> set [0, 1, 2, 3, 4] \<Longrightarrow>
      (get_cell m r c = Inr True) = m ! nat r ! nat c"
    using get_cell_valid[OF v] by auto
  then show ?thesis
    unfolding line_marked_def py_range_5 list_all_iff by blast
qed

lemma line_marked_row:
  assumes "valid_marks m" "r \<in> set [0, 1, 2, 3, 4]"
  shows "line_marked m (''row'', r) = row_full m r"
proof -
  from assms(2) consider "r = 0" | "r = 1" | "r = 2" | "r = 3" | "r = 4" by auto
  then show ?thesis
    by cases (simp_all add: line_marked_cells[OF assms(1)] on_line_row row_full_def)
qed

lemma line_marked_col:
  assumes "valid_marks m" "c \<in> set [0, 1, 2, 3, 4]"
  shows "line_marked m (''col'', c) = col_full m c"
proof -
  from assms(2) consider "c = 0" | "c = 1" | "c = 2" | "c = 3" | "c = 4" by auto
  then show ?thesis
    by cases (simp_all add: line_marked_cells[OF assms(1)] on_line_col col_full_def)
qed

lemma line_marked_diag0:
  "valid_marks m \<Longrightarrow> line_marked m (''diag'', 0) = diag_full m 0"
  by (simp add: line_marked_cells on_line_diag0 diag_full_def)

lemma line_marked_diag1:
  "valid_marks m \<Longrightarrow> line_marked m (''diag'', 1) = diag_full m 1"
  by (simp add: line_marked_cells on_line_diag1 diag_full_def)

text \<open>Membership in the result list, with the three kind strings kept abstract.\<close>

lemma mem_wins_gen:
  "line \<in> set (map (Pair k1) (filter P R) @ map (Pair k2) (filter Q R)
       @ (if d0 then [(k3, 0)] else []) @ (if d1 then [(k3, 1 :: int)] else []))
   \<longleftrightarrow> (\<exists>r \<in> set R. line = (k1, r) \<and> P r) \<or> (\<exists>c \<in> set R. line = (k2, c) \<and> Q c)
       \<or> (line = (k3, 0) \<and> d0) \<or> (line = (k3, 1) \<and> d1)"
  by auto

lemmas mem_wins = mem_wins_gen[of _ "''row''" _ _ "''col''" _ _ "''diag''"]

lemma mem_all_lines:
  "line \<in> set all_lines
   \<longleftrightarrow> (\<exists>r \<in> set [0, 1, 2, 3, 4]. line = (''row'', r))
       \<or> (\<exists>c \<in> set [0, 1, 2, 3, 4]. line = (''col'', c))
       \<or> line = (''diag'', 0) \<or> line = (''diag'', 1)"
  using mem_wins_gen[of line "''row''" "\<lambda>_. True" "[0, 1, 2, 3, 4]" "''col''" "\<lambda>_. True"
      True "''diag''" True]
  unfolding all_lines_def py_range_5 by simp

subsection \<open>C1: the win detector reports exactly the complete lines\<close>

text \<open>
  Claim C1. On every board with a valid marked grid, \<open>check_bingo\<close> returns a list, and a
  descriptor is in that list if and only if it is one of the twelve lines (five rows,
  five columns, two diagonals) and all five cells of that line are marked. So every line
  that is complete at the same time as others is reported too.
\<close>

theorem check_bingo_exactly_complete_lines:
  assumes v: "valid_marks (marked b)"
  shows "\<exists>ws. check_bingo b = Inr ws \<and>
     (\<forall>line. line \<in> set ws \<longleftrightarrow> line \<in> set all_lines \<and> line_marked (marked b) line)"
proof (intro exI conjI allI)
  show "check_bingo b = Inr (map (Pair ''row'') (filter (row_full (marked b)) [0, 1, 2, 3, 4])
         @ map (Pair ''col'') (filter (col_full (marked b)) [0, 1, 2, 3, 4])
         @ (if diag_full (marked b) 0 then [(''diag'', 0)] else [])
         @ (if diag_full (marked b) 1 then [(''diag'', 1)] else []))"
    by (rule check_bingo_valid[OF v])
next
  fix line :: "string \<times> int"
  let ?m = "marked b"
  let ?R = "[0, 1, 2, 3, 4] :: int list"
  have rows: "\<And>r. r \<in> set ?R \<Longrightarrow> line_marked ?m (''row'', r) = row_full ?m r"
    by (rule line_marked_row[OF v])
  have cols: "\<And>c. c \<in> set ?R \<Longrightarrow> line_marked ?m (''col'', c) = col_full ?m c"
    by (rule line_marked_col[OF v])
  note diags = line_marked_diag0[OF v] line_marked_diag1[OF v]
  have 1: "(\<exists>r \<in> set ?R. line = (''row'', r) \<and> row_full ?m r)
      \<longleftrightarrow> (\<exists>r \<in> set ?R. line = (''row'', r)) \<and> line_marked ?m line"
    using rows by blast
  have 2: "(\<exists>r \<in> set ?R. line = (''col'', r) \<and> col_full ?m r)
      \<longleftrightarrow> (\<exists>r \<in> set ?R. line = (''col'', r)) \<and> line_marked ?m line"
    using cols by blast
  have 3: "line = (''diag'', 0) \<and> diag_full ?m 0
      \<longleftrightarrow> line = (''diag'', 0) \<and> line_marked ?m line"
    using diags(1) by blast
  have 4: "line = (''diag'', 1) \<and> diag_full ?m 1
      \<longleftrightarrow> line = (''diag'', 1) \<and> line_marked ?m line"
    using diags(2) by blast
  show "line \<in> set (map (Pair ''row'') (filter (row_full ?m) ?R)
         @ map (Pair ''col'') (filter (col_full ?m) ?R)
         @ (if diag_full ?m 0 then [(''diag'', 0)] else [])
         @ (if diag_full ?m 1 then [(''diag'', 1)] else []))
      \<longleftrightarrow> line \<in> set all_lines \<and> line_marked ?m line"
    unfolding mem_wins mem_all_lines 1 2 3 4 by blast
qed

text \<open>The example of the specification: both diagonals marked on a generated board.\<close>

theorem check_bingo_exactly_complete_lines_witness:
  "valid_marks (marked both_diagonals) \<and>
   check_bingo both_diagonals = Inr [(''diag'', 0), (''diag'', 1)] \<and>
   line_marked (marked both_diagonals) (''diag'', 0) \<and>
   line_marked (marked both_diagonals) (''diag'', 1) \<and>
   \<not> line_marked (marked both_diagonals) (''row'', 2)"
proof -
  have h: "valid_marks (marked both_diagonals)"
    by code_simp
  have c: "check_bingo both_diagonals = Inr [(''diag'', 0), (''diag'', 1)]"
    by code_simp
  have r: "(''row'', 2) \<in> set all_lines"
    by code_simp
  have m0: "(''diag'', 0) \<in> set [(''diag'', 0), (''diag'', 1 :: int)]"
    by simp
  have m1: "(''diag'', 1) \<in> set [(''diag'', 0), (''diag'', 1 :: int)]"
    by simp
  have m2: "(''row'', 2) \<notin> set [(''diag'', 0), (''diag'', 1 :: int)]"
    by simp
  from check_bingo_exactly_complete_lines[OF h] c
  have iff: "\<And>line. line \<in> set [(''diag'', 0), (''diag'', 1)]
      \<longleftrightarrow> line \<in> set all_lines \<and> line_marked (marked both_diagonals) line"
    by (simp only: sum.inject ex_simps simp_thms)
  have "line_marked (marked both_diagonals) (''diag'', 0)"
    using iff[of "(''diag'', 0)"] m0 by blast
  moreover have "line_marked (marked both_diagonals) (''diag'', 1)"
    using iff[of "(''diag'', 1)"] m1 by blast
  moreover have "\<not> line_marked (marked both_diagonals) (''row'', 2)"
    using iff[of "(''row'', 2)"] m2 r by blast
  ultimately show ?thesis
    using h c by blast
qed

subsection \<open>Fresh marks\<close>

lemma center_store:
  "set_cell blank_marks (fst free_space_pos) (snd free_space_pos) True = Inr center_only"
  by code_simp

lemma init_marks_eq: "init_marks b = (None, b\<lparr>marked := center_only\<rparr>)"
  by (simp add: init_marks_def center_store)

lemma valid_center_only: "valid_marks center_only"
  by (simp add: valid_marks_def center_only_def)

lemma check_bingo_center_only: "marked b = center_only \<Longrightarrow> check_bingo b = Inr []"
  by (simp add: check_bingo_valid valid_center_only)
     (simp add: center_only_def row_full_def col_full_def diag_full_def)

lemma generate_board_marks:
  "generate_board rng b = (None, b') \<Longrightarrow> marked b' = center_only"
  by (auto simp add: generate_board_def init_marks_eq split: sum.splits prod.splits option.splits)

lemma reset_marks_eq: "reset_marks b = (None, b\<lparr>marked := center_only\<rparr>)"
  by (simp add: reset_marks_def init_marks_eq)

subsection \<open>C9: shape of the result of the win detector\<close>

lemma kinds_differ: "''row'' \<noteq> ''col''" "''row'' \<noteq> ''diag''" "''col'' \<noteq> ''diag''"
  by simp_all

lemma filter_all_lines_gen:
  "filter P (map (Pair k1) R @ map (Pair k2) R @ [(k3, 0), (k3, 1 :: int)]) =
     map (Pair k1) (filter (\<lambda>r. P (k1, r)) R) @ map (Pair k2) (filter (\<lambda>c. P (k2, c)) R)
     @ map (Pair k3) (filter (\<lambda>k. P (k3, k)) [0, 1])"
  by (simp add: filter_map comp_def)

lemma all_lines_parts:
  "all_lines = map (Pair ''row'') [0, 1, 2, 3, 4] @ map (Pair ''col'') [0, 1, 2, 3, 4]
     @ [(''diag'', 0), (''diag'', 1)]"
  by (simp only: all_lines_def py_range_5)

lemma distinct_all_lines_gen:
  assumes "k1 \<noteq> k2" "k1 \<noteq> k3" "k2 \<noteq> k3" "distinct R"
  shows "distinct (map (Pair k1) R @ map (Pair k2) R @ [(k3, 0), (k3, 1 :: int)])"
  using assms by (auto simp add: distinct_map inj_on_def)

lemma distinct_all_lines: "distinct all_lines"
  unfolding all_lines_parts by (rule distinct_all_lines_gen[OF kinds_differ]) simp

text \<open>
  Claim C9. On every board with a valid marked grid the list returned by \<open>check_bingo\<close>
  is the list of the twelve descriptors in their fixed order (rows 0 to 4, then columns 0
  to 4, then \<open>('diag', 0)\<close>, then \<open>('diag', 1)\<close>) with the lines that are not completely
  marked left out. So it is the winning rows in ascending index order, then the winning
  columns in ascending index order, then the winning diagonals with \<open>('diag', 0)\<close> first;
  it has no duplicates and every element is one of the twelve descriptors.
\<close>

theorem check_bingo_order:
  assumes v: "valid_marks (marked b)"
  shows "\<exists>ws.
     check_bingo b = Inr ws \<and>
     ws = filter (line_marked (marked b)) all_lines \<and>
     ws = map (Pair ''row'') (filter (\<lambda>r. line_marked (marked b) (''row'', r)) [0, 1, 2, 3, 4])
          @ map (Pair ''col'') (filter (\<lambda>c. line_marked (marked b) (''col'', c)) [0, 1, 2, 3, 4])
          @ map (Pair ''diag'') (filter (\<lambda>k. line_marked (marked b) (''diag'', k)) [0, 1]) \<and>
     all_lines =
       [(''row'', 0), (''row'', 1), (''row'', 2), (''row'', 3), (''row'', 4),
        (''col'', 0), (''col'', 1), (''col'', 2), (''col'', 3), (''col'', 4),
        (''diag'', 0), (''diag'', 1)] \<and>
     distinct ws \<and> set ws \<subseteq> set all_lines"
proof -
  let ?m = "marked b"
  let ?R = "[0, 1, 2, 3, 4] :: int list"
  let ?rows = "filter (\<lambda>r. line_marked ?m (''row'', r)) ?R"
  let ?cols = "filter (\<lambda>c. line_marked ?m (''col'', c)) ?R"
  let ?diags = "filter (\<lambda>k. line_marked ?m (''diag'', k)) [0, 1]"
  let ?ws = "map (Pair ''row'') ?rows @ map (Pair ''col'') ?cols @ map (Pair ''diag'') ?diags"
  have rows: "?rows = filter (row_full ?m) ?R"
    by (rule filter_cong[OF refl]) (rule line_marked_row[OF v])
  have cols: "?cols = filter (col_full ?m) ?R"
    by (rule filter_cong[OF refl]) (rule line_marked_col[OF v])
  have diags: "map (Pair ''diag'') ?diags =
      (if diag_full ?m 0 then [(''diag'', 0)] else []) @ (if diag_full ?m 1 then [(''diag'', 1)] else [])"
    by (simp add: line_marked_diag0[OF v] line_marked_diag1[OF v])
  have cb: "check_bingo b = Inr ?ws"
    unfolding rows cols diags by (rule check_bingo_valid[OF v])
  have fl: "?ws = filter (line_marked ?m) all_lines"
    unfolding all_lines_parts by (rule filter_all_lines_gen[symmetric])
  have lit: "all_lines =
       [(''row'', 0), (''row'', 1), (''row'', 2), (''row'', 3), (''row'', 4),
        (''col'', 0), (''col'', 1), (''col'', 2), (''col'', 3), (''col'', 4),
        (''diag'', 0), (''diag'', 1)]"
    unfolding all_lines_parts by simp
  have dist: "distinct ?ws"
    unfolding fl by (rule distinct_filter[OF distinct_all_lines])
  have sub: "set ?ws \<subseteq> set all_lines"
    unfolding fl by (rule filter_is_subset)
  from cb fl lit dist sub show ?thesis
    by (intro exI[of _ ?ws] conjI refl)
qed

text \<open>A board with row 2 and column 0 marked, and the board with every cell marked.\<close>

theorem check_bingo_order_witness:
  "valid_marks (marked row_and_column) \<and>
   check_bingo row_and_column = Inr [(''row'', 2), (''col'', 0)] \<and>
   filter (line_marked (marked row_and_column)) all_lines = [(''row'', 2), (''col'', 0)] \<and>
   valid_marks (marked full_house) \<and>
   check_bingo full_house =
     Inr [(''row'', 0), (''row'', 1), (''row'', 2), (''row'', 3), (''row'', 4),
          (''col'', 0), (''col'', 1), (''col'', 2), (''col'', 3), (''col'', 4),
          (''diag'', 0), (''diag'', 1)] \<and>
   filter (line_marked (marked full_house)) all_lines = all_lines"
proof -
  have h1: "valid_marks (marked row_and_column)" and h2: "valid_marks (marked full_house)"
    by code_simp+
  have c1: "check_bingo row_and_column = Inr [(''row'', 2), (''col'', 0)]"
    by code_simp
  have c2: "check_bingo full_house =
     Inr [(''row'', 0), (''row'', 1), (''row'', 2), (''row'', 3), (''row'', 4),
          (''col'', 0), (''col'', 1), (''col'', 2), (''col'', 3), (''col'', 4),
          (''diag'', 0), (''diag'', 1)]"
    by code_simp
  from check_bingo_order[OF h1] obtain ws1 where
    w1: "check_bingo row_and_column = Inr ws1"
      "ws1 = filter (line_marked (marked row_and_column)) all_lines"
    by (elim exE conjE)
  from check_bingo_order[OF h2] obtain ws2 where
    w2: "check_bingo full_house = Inr ws2"
      "ws2 = filter (line_marked (marked full_house)) all_lines"
      "all_lines =
       [(''row'', 0), (''row'', 1), (''row'', 2), (''row'', 3), (''row'', 4),
        (''col'', 0), (''col'', 1), (''col'', 2), (''col'', 3), (''col'', 4),
        (''diag'', 0), (''diag'', 1)]"
    by (elim exE conjE)
  have f1: "filter (line_marked (marked row_and_column)) all_lines = [(''row'', 2), (''col'', 0)]"
    using w1 c1 by (simp only: sum.inject)
  have f2: "filter (line_marked (marked full_house)) all_lines = all_lines"
    using w2 c2 by (simp only: sum.inject)
  from h1 c1 f1 h2 c2 f2 show ?thesis
    by (intro conjI)
qed

subsection \<open>C10: a fresh board is not winning\<close>

text \<open>
  Claim C10. When \<open>generate_board\<close> returns, and after \<open>reset_marks\<close> (which always
  returns), only the center cell is marked and \<open>check_bingo\<close> returns the empty list.
\<close>

theorem fresh_board_not_winning:
  "(generate_board rng b = (None, b') \<longrightarrow> marked b' = center_only \<and> check_bingo b' = Inr []) \<and>
   (\<exists>b''. reset_marks c = (None, b'') \<and> marked b'' = center_only \<and> check_bingo b'' = Inr [])"
proof (intro conjI impI)
  assume g: "generate_board rng b = (None, b')"
  then show "marked b' = center_only" by (rule generate_board_marks)
  then show "check_bingo b' = Inr []" by (rule check_bingo_center_only)
next
  have "marked (c\<lparr>marked := center_only\<rparr>) = center_only" by simp
  then show "\<exists>b''. reset_marks c = (None, b'') \<and> marked b'' = center_only \<and> check_bingo b'' = Inr []"
    using reset_marks_eq[of c] check_bingo_center_only by blast
qed

theorem fresh_board_not_winning_witness:
  "generate_board demo_rng \<lparr>buzzwords = demo_pool, board = [], marked = []\<rparr> = (None, demo_board) \<and>
   marked demo_board = center_only \<and> check_bingo demo_board = Inr [] \<and>
   check_bingo both_diagonals \<noteq> Inr [] \<and>
   (\<exists>b''. reset_marks both_diagonals = (None, b'') \<and> marked b'' = center_only \<and>
      check_bingo b'' = Inr [])"
proof -
  have "fst (generate_board demo_rng \<lparr>buzzwords = demo_pool, board = [], marked = []\<rparr>) = None"
    by code_simp
  then have g: "generate_board demo_rng \<lparr>buzzwords = demo_pool, board = [], marked = []\<rparr>
      = (None, demo_board)"
    unfolding demo_board_def by (simp add: prod_eq_iff)
  have w: "check_bingo both_diagonals \<noteq> Inr []"
    by code_simp
  note t = fresh_board_not_winning[of demo_rng "\<lparr>buzzwords = demo_pool, board = [], marked = []\<rparr>"
      demo_board both_diagonals]
  from t g w show ?thesis
    by blast
qed

subsection \<open>Toggling on a valid grid\<close>

lemma set_cell_valid:
  assumes "valid_marks m" "0 \<le> row" "row < 5" "0 \<le> col" "col < 5"
  shows "set_cell m row col v = Inr (m[nat row := (m ! nat row)[nat col := v]])"
proof -
  have len: "length m = 5" using assms(1) by (simp add: valid_marks_def)
  have r: "py_index m row = Inr (nat row)"
    using assms(2,3) len by (simp add: py_index_def)
  have "nat row < 5" using assms(2,3) by simp
  then have "length (m ! nat row) = 5" using assms(1) by (rule valid_marks_row[rotated])
  then have "py_index (m ! nat row) col = Inr (nat col)"
    using assms(4,5) by (simp add: py_index_def)
  with r show ?thesis by (simp add: set_cell_def)
qed

lemma valid_marks_update:
  assumes "valid_marks m" "i < 5"
  shows "valid_marks (m[i := (m ! i)[j := v]])"
proof -
  have "length ((m ! i)[j := v]) = 5"
    using valid_marks_row[OF assms] by simp
  moreover have "set (m[i := (m ! i)[j := v]]) \<subseteq> insert ((m ! i)[j := v]) (set m)"
    by (rule set_update_subset_insert)
  ultimately show ?thesis
    using assms(1) unfolding valid_marks_def list_all_iff by auto
qed

lemma toggle_mark_valid:
  assumes "valid_marks (marked b)" "0 \<le> row" "row < 5" "0 \<le> col" "col < 5"
    "(row, col) \<noteq> free_space_pos"
  shows "toggle_mark b row col =
    (None, b\<lparr>marked := (marked b)[nat row :=
        (marked b ! nat row)[nat col := \<not> marked b ! nat row ! nat col]]\<rparr>)"
  using assms(6)
  by (simp add: toggle_mark_def get_cell_valid[OF assms(1-5)] set_cell_valid[OF assms(1-5)])


subsection \<open>C8: toggling twice\<close>

text \<open>
  Claim C8. On a board with a valid marked grid, for every cell \<open>(row, col)\<close> in range
  \<open>0..4\<close> other than the free cell, \<open>toggle_mark(row, col)\<close> returns and flips the flag of
  that cell, and a second \<open>toggle_mark(row, col)\<close> returns and leaves the board exactly as
  it was before the two calls.
\<close>

theorem toggle_mark_twice:
  assumes v: "valid_marks (marked b)" and r: "0 \<le> row" "row < 5" and c: "0 \<le> col" "col < 5"
    and nf: "(row, col) \<noteq> free_space_pos"
  shows "\<exists>flag b'. get_cell (marked b) row col = Inr flag \<and>
      toggle_mark b row col = (None, b') \<and>
      get_cell (marked b') row col = Inr (\<not> flag) \<and>
      toggle_mark b' row col = (None, b)"
proof -
  let ?m = "marked b"
  let ?i = "nat row" and ?j = "nat col"
  let ?m' = "?m[?i := (?m ! ?i)[?j := \<not> ?m ! ?i ! ?j]]"
  let ?b' = "b\<lparr>marked := ?m'\<rparr>"
  have i: "?i < length ?m" using v r by (simp add: valid_marks_def)
  have "?i < 5" using r by simp
  then have j: "?j < length (?m ! ?i)" using valid_marks_row[OF v] c by simp
  have vm: "valid_marks ?m'"
    by (rule valid_marks_update[OF v \<open>?i < 5\<close>])
  then have v': "valid_marks (marked ?b')" by simp
  have t1: "toggle_mark b row col = (None, ?b')"
    by (rule toggle_mark_valid[OF v r c nf])
  have g0: "get_cell ?m row col = Inr (?m ! ?i ! ?j)"
    by (rule get_cell_valid[OF v r c])
  have "get_cell ?m' row col = Inr (?m' ! ?i ! ?j)"
    by (rule get_cell_valid[OF vm r c])
  then have g1: "get_cell (marked ?b') row col = Inr (\<not> ?m ! ?i ! ?j)"
    using i j by simp
  have restore: "?m'[?i := (?m' ! ?i)[?j := \<not> ?m' ! ?i ! ?j]] = ?m"
    using i j by simp
  have "toggle_mark ?b' row col = (None, ?b'\<lparr>marked := ?m\<rparr>)"
    using toggle_mark_valid[OF v' r c nf] restore by simp
  then have t2: "toggle_mark ?b' row col = (None, b)" by simp
  from g0 t1 g1 t2 show ?thesis by blast
qed

theorem toggle_mark_twice_witness:
  "valid_marks (marked demo_board) \<and> (1 :: int, 3 :: int) \<noteq> free_space_pos \<and>
   (\<exists>flag b'. get_cell (marked demo_board) 1 3 = Inr flag \<and>
      toggle_mark demo_board 1 3 = (None, b') \<and>
      get_cell (marked b') 1 3 = Inr (\<not> flag) \<and>
      toggle_mark b' 1 3 = (None, demo_board))"
proof -
  have h: "valid_marks (marked demo_board)"
    by code_simp
  have nf: "(1 :: int, 3 :: int) \<noteq> free_space_pos"
    by (simp add: free_space_pos_def)
  have "\<exists>flag b'. get_cell (marked demo_board) 1 3 = Inr flag \<and>
      toggle_mark demo_board 1 3 = (None, b') \<and>
      get_cell (marked b') 1 3 = Inr (\<not> flag) \<and>
      toggle_mark b' 1 3 = (None, demo_board)"
    by (rule toggle_mark_twice[OF h _ _ _ _ nf]) simp_all
  with h nf show ?thesis
    by (intro conjI)
qed

subsection \<open>C3: toggling outside the grid\<close>

text \<open>
  Claim C3 says that \<open>toggle_mark\<close> with a coordinate outside \<open>0..4\<close> does not fail and
  changes nothing. \<open>toggle_mark\<close> has no range check: on the generated demo board
  \<open>toggle_mark(5, 0)\<close> raises IndexError, and \<open>toggle_mark(-1, 0)\<close> returns and marks the
  cell in row 4, column 0, which Python's negative index addresses.
\<close>

theorem toggle_mark_out_of_range_counterexample:
  "valid_marks (marked demo_board) \<and>
   fst (toggle_mark demo_board 5 0) = Some IndexError \<and>
   fst (toggle_mark demo_board (- 1) 0) = None \<and>
   get_cell (marked demo_board) 4 0 = Inr False \<and>
   get_cell (marked (snd (toggle_mark demo_board (- 1) 0))) 4 0 = Inr True"
  by code_simp

text \<open>
  Claim C3 as amended. On a board with a valid marked grid, \<open>toggle_mark(row, col)\<close> with
  \<open>row\<close> or \<open>col\<close> outside \<open>-5..4\<close> raises IndexError and leaves the whole board state
  unchanged: such a toggle is an error, not a no-op.
\<close>

theorem toggle_mark_out_of_range:
  assumes v: "valid_marks (marked b)"
    and out: "row < - 5 \<or> 4 < row \<or> col < - 5 \<or> 4 < col"
  shows "toggle_mark b row col = (Some IndexError, b)"
proof -
  have nf: "(row, col) \<noteq> free_space_pos"
    using out by (auto simp add: free_space_pos_def)
  have len: "length (marked b) = 5" using v by (simp add: valid_marks_def)
  have "get_cell (marked b) row col = Inl IndexError"
  proof (cases "row < - 5 \<or> 4 < row")
    case True
    then have "py_index (marked b) row = Inl IndexError"
      using len by (auto simp add: py_index_def)
    then show ?thesis by (simp add: get_cell_def py_getitem_def)
  next
    case False
    then have c: "col < - 5 \<or> 4 < col" using out by blast
    have "\<exists>i<5. py_index (marked b) row = Inr i"
      using False len unfolding py_index_def by (cases "0 \<le> row") auto
    then obtain i where i: "py_index (marked b) row = Inr i" "i < 5"
      by blast
    have "length (marked b ! i) = 5" by (rule valid_marks_row[OF v i(2)])
    then have "py_index (marked b ! i) col = Inl IndexError"
      using c by (auto simp add: py_index_def)
    with i show ?thesis by (simp add: get_cell_def py_getitem_def)
  qed
  with nf show ?thesis by (simp add: toggle_mark_def)
qed

theorem toggle_mark_out_of_range_witness:
  "valid_marks (marked demo_board) \<and>
   ((7 :: int) < - 5 \<or> 4 < (7 :: int) \<or> (1 :: int) < - 5 \<or> 4 < (1 :: int)) \<and>
   toggle_mark demo_board 7 1 = (Some IndexError, demo_board)"
proof -
  have h: "valid_marks (marked demo_board)"
    by code_simp
  have out: "(7 :: int) < - 5 \<or> 4 < (7 :: int) \<or> (1 :: int) < - 5 \<or> 4 < (1 :: int)"
    by simp
  from h out toggle_mark_out_of_range[OF h out] show ?thesis
    by (intro conjI)
qed

subsection \<open>The free cell under board operations\<close>




lemma generate_board_marks_cases:
  "marked (snd (generate_board rng b)) = marked b \<or>
   marked (snd (generate_board rng b)) = center_only"
  by (simp add: generate_board_def init_marks_eq split: sum.splits prod.splits option.splits)




subsection \<open>Sampling without replacement\<close>

lemma mset_drop_slot:
  assumes j: "j < length pool"
  shows "mset (butlast (pool[j := last pool])) = mset pool - {#pool ! j#}"
proof -
  from j have "pool \<noteq> []" by auto
  then obtain ys z where p: "pool = ys @ [z]"
    by (cases pool rule: rev_cases) auto
  show ?thesis
  proof (cases "j = length ys")
    case True
    then show ?thesis by (simp add: p)
  next
    case False
    with j p have jl: "j < length ys" by simp
    then have "ys ! j \<in># mset ys" by simp
    then show ?thesis
      using jl by (simp add: p list_update_append nth_append mset_update)
  qed
qed

lemma length_sample_from: "length (sample_from rng pool k) = k"
  by (induction k arbitrary: rng pool) (simp_all add: Let_def)

lemma mset_sample_from:
  "k \<le> length pool \<Longrightarrow> mset (sample_from rng pool k) \<subseteq># mset pool"
proof (induction k arbitrary: rng pool)
  case 0
  then show ?case by simp
next
  case (Suc k)
  let ?j = "rng 0 mod length pool"
  let ?rest = "butlast (pool[?j := last pool])"
  from Suc.prems have "0 < length pool" by (cases pool) simp_all
  then have j: "?j < length pool" by (rule mod_less_divisor)
  have "k \<le> length ?rest" using Suc.prems by simp
  then have "mset (sample_from (\<lambda>i. rng (Suc i)) ?rest k) \<subseteq># mset ?rest"
    by (rule Suc.IH)
  then have "mset (sample_from (\<lambda>i. rng (Suc i)) ?rest k) \<subseteq># mset pool - {#pool ! ?j#}"
    by (simp only: mset_drop_slot[OF j])
  moreover have "pool ! ?j \<in># mset pool" using j by simp
  ultimately have "add_mset (pool ! ?j) (mset (sample_from (\<lambda>i. rng (Suc i)) ?rest k)) \<subseteq># mset pool"
    by (metis insert_DiffM mset_subset_eq_add_mset_cancel)
  then show ?case by (simp add: Let_def)
qed

lemma distinct_sub_mset:
  assumes "mset xs \<subseteq># mset ys" "distinct ys"
  shows "distinct xs"
proof -
  have "count (mset xs) a \<le> 1" for a
  proof -
    have "count (mset xs) a \<le> count (mset ys) a"
      using assms(1) by (rule mset_subset_eq_count)
    also have "\<dots> \<le> 1"
      using assms(2) by (simp add: distinct_count_atmost_1)
    finally show ?thesis .
  qed
  then show ?thesis
    unfolding distinct_count_atmost_1
    by (metis count_mset_0_iff le_antisym set_mset_mset One_nat_def Suc_leI count_greater_zero_iff)
qed

lemma random_sample_ok:
  assumes "24 \<le> length pool"
  shows "\<exists>selected. random_sample rng pool 24 = Inr selected \<and> length selected = 24 \<and>
     mset selected \<subseteq># mset pool"
  using assms by (simp add: random_sample_def length_sample_from mset_sample_from)

lemma random_sample_fails:
  "length pool < 24 \<Longrightarrow> random_sample rng pool 24 = Inl ValueError"
  by (simp add: random_sample_def)

subsection \<open>Generating a board\<close>

lemma fill_board_24:
  assumes "length s = 24"
  shows "fill_board s (py_range board_size) [] 0 = (None, layout s)"
  using assms
  by (simp add: py_range_5 free_space_pos_def py_getitem_def py_index_def layout_def)

lemma first_24: "[0..<24] = [0, 1, 2, 3, 4, 5, 6, 7, 8, 9, 10, 11, 12, 13, 14, 15, 16, 17, 18,
    19, 20, 21, 22, 23 :: nat]"
  by code_simp

lemma list_24:
  assumes "length s = 24"
  shows "[s ! 0, s ! 1, s ! 2, s ! 3, s ! 4, s ! 5, s ! 6, s ! 7, s ! 8, s ! 9, s ! 10, s ! 11,
     s ! 12, s ! 13, s ! 14, s ! 15, s ! 16, s ! 17, s ! 18, s ! 19, s ! 20, s ! 21, s ! 22,
     s ! 23] = s"
proof -
  have "map ((!) s) [0..<24] = s"
    using map_nth[of s] assms by simp
  then show ?thesis
    unfolding first_24 by simp
qed

lemma non_center_cells_layout:
  assumes "length s = 24"
  shows "non_center_cells (layout s) = s"
proof -
  have "non_center_cells (layout s) = [s ! 0, s ! 1, s ! 2, s ! 3, s ! 4, s ! 5, s ! 6, s ! 7,
     s ! 8, s ! 9, s ! 10, s ! 11, s ! 12, s ! 13, s ! 14, s ! 15, s ! 16, s ! 17, s ! 18,
     s ! 19, s ! 20, s ! 21, s ! 22, s ! 23]"
    by (simp add: non_center_cells_def py_range_5 free_space_pos_def layout_def)
  then show ?thesis
    by (simp only: list_24[OF assms])
qed

lemma layout_shape:
  "length (layout s) = 5" "list_all (\<lambda>r. length r = 5) (layout s)"
  "get_cell (layout s) 2 2 = Inr ''FREE SPACE''"
  by (simp_all add: layout_def get_cell_def py_getitem_def py_index_def)

lemma center_only_grid:
  "list_all (\<lambda>row. list_all (\<lambda>col. get_cell center_only row col = Inr (row = 2 \<and> col = 2))
      [0, 1, 2, 3, 4]) [0, 1, 2, 3, 4]"
  by code_simp

lemma center_only_cells:
  assumes "0 \<le> row" "row < 5" "0 \<le> col" "col < 5"
  shows "get_cell center_only row col = Inr (row = 2 \<and> col = 2)"
proof -
  have "row \<in> set [0, 1, 2, 3, 4]" "col \<in> set [0, 1, 2, 3, 4]"
    using assms by auto
  with center_only_grid show ?thesis
    unfolding list_all_iff by blast
qed

lemma generate_board_ok:
  assumes "24 \<le> length (buzzwords b)"
  shows "\<exists>selected. random_sample rng (buzzwords b) 24 = Inr selected \<and>
     length selected = 24 \<and> mset selected \<subseteq># mset (buzzwords b) \<and>
     generate_board rng b = (None, b\<lparr>board := layout selected, marked := center_only\<rparr>)"
proof -
  from random_sample_ok[OF assms, of rng] obtain selected where
    s: "random_sample rng (buzzwords b) 24 = Inr selected" "length selected = 24"
       "mset selected \<subseteq># mset (buzzwords b)"
    by blast
  have "generate_board rng b = (None, b\<lparr>board := layout selected, marked := center_only\<rparr>)"
    by (simp add: generate_board_def s(1) fill_board_24[OF s(2)] init_marks_eq)
  with s show ?thesis by blast
qed

lemma generate_board_fails:
  "length (buzzwords b) < 24 \<Longrightarrow> generate_board rng b = (Some ValueError, b)"
  by (simp add: generate_board_def random_sample_fails)

subsection \<open>C2: the generated board\<close>

text \<open>
  Claim C2. For every pool of at least 24 distinct phrases \<open>generate_board\<close> returns a
  board of five rows of five cells. Its 24 non-center cells, read in row-major order, are
  the sample that \<open>random.sample\<close> returned: 24 phrases, pairwise distinct, taken from the
  pool without replacement. The center cell holds the label \<open>FREE SPACE\<close>, and the center
  cell is the only marked cell.
\<close>

theorem generate_board_layout:
  assumes d: "distinct (buzzwords b)" and n: "24 \<le> length (buzzwords b)"
  shows "\<exists>selected b'.
     random_sample rng (buzzwords b) 24 = Inr selected \<and>
     generate_board rng b = (None, b') \<and>
     length (board b') = 5 \<and> list_all (\<lambda>r. length r = 5) (board b') \<and>
     non_center_cells (board b') = selected \<and>
     length selected = 24 \<and> distinct selected \<and> mset selected \<subseteq># mset (buzzwords b) \<and>
     set selected \<subseteq> set (buzzwords b) \<and>
     get_cell (board b') 2 2 = Inr ''FREE SPACE'' \<and>
     valid_marks (marked b') \<and>
     (\<forall>row col. 0 \<le> row \<and> row < 5 \<and> 0 \<le> col \<and> col < 5 \<longrightarrow>
        get_cell (marked b') row col = Inr (row = 2 \<and> col = 2))"
proof -
  from generate_board_ok[OF n, of rng] obtain selected where
    s: "random_sample rng (buzzwords b) 24 = Inr selected" "length selected = 24"
       "mset selected \<subseteq># mset (buzzwords b)"
    and g: "generate_board rng b = (None, b\<lparr>board := layout selected, marked := center_only\<rparr>)"
    by blast
  let ?b' = "b\<lparr>board := layout selected, marked := center_only\<rparr>"
  have bd: "board ?b' = layout selected" and mk: "marked ?b' = center_only"
    by simp_all
  have ds: "distinct selected"
    using s(3) d by (rule distinct_sub_mset)
  have sub: "set selected \<subseteq> set (buzzwords b)"
    using s(3) by (rule set_mset_mono[of "mset selected" "mset (buzzwords b)", simplified])
  have cells: "\<forall>row col. 0 \<le> row \<and> row < 5 \<and> 0 \<le> col \<and> col < 5 \<longrightarrow>
        get_cell (marked ?b') row col = Inr (row = 2 \<and> col = 2)"
    unfolding mk using center_only_cells by blast
  have "length (board ?b') = 5" "list_all (\<lambda>r. length r = 5) (board ?b')"
    "non_center_cells (board ?b') = selected"
    "get_cell (board ?b') 2 2 = Inr ''FREE SPACE''" "valid_marks (marked ?b')"
    unfolding bd mk
    by (rule layout_shape non_center_cells_layout[OF s(2)] valid_center_only)+
  with s g ds sub cells show ?thesis
    by blast
qed

theorem generate_board_layout_witness:
  "distinct (buzzwords \<lparr>buzzwords = demo_pool, board = [], marked = []\<rparr>) \<and>
   24 \<le> length (buzzwords \<lparr>buzzwords = demo_pool, board = [], marked = []\<rparr>) \<and>
   generate_board demo_rng \<lparr>buzzwords = demo_pool, board = [], marked = []\<rparr> = (None, demo_board) \<and>
   board demo_board =
     [[''Deep Dive'', ''Quick Win'', ''Alignment'', ''Low Hanging Fruit'', ''Thought Leadership''],
      [''Paradigm Shift'', ''Bandwidth'', ''Game Changer'', ''Boil the Ocean'', ''At Scale''],
      [''North Star'', ''Run It Up the Flagpole'', ''FREE SPACE'', ''Roadmap'', ''Best Practices''],
      [''Deliverables'', ''Leverage'', ''Single Pane of Glass'', ''Stakeholder Buy In'',
       ''Value Add''],
      [''Customer Centric'', ''Moving Forward'', ''Circle Back'', ''Touch Base'',
       ''Take This Offline'']] \<and>
   random_sample demo_rng demo_pool 24 = Inr (non_center_cells (board demo_board)) \<and>
   distinct (non_center_cells (board demo_board)) \<and>
   set (non_center_cells (board demo_board)) \<subseteq> set demo_pool \<and>
   marked demo_board = center_only"
proof -
  let ?init = "\<lparr>buzzwords = demo_pool, board = [], marked = []\<rparr>"
  have d: "distinct (buzzwords ?init)"
    by code_simp
  have n: "24 \<le> length (buzzwords ?init)"
    by code_simp
  have lit: "board demo_board =
     [[''Deep Dive'', ''Quick Win'', ''Alignment'', ''Low Hanging Fruit'', ''Thought Leadership''],
      [''Paradigm Shift'', ''Bandwidth'', ''Game Changer'', ''Boil the Ocean'', ''At Scale''],
      [''North Star'', ''Run It Up the Flagpole'', ''FREE SPACE'', ''Roadmap'', ''Best Practices''],
      [''Deliverables'', ''Leverage'', ''Single Pane of Glass'', ''Stakeholder Buy In'',
       ''Value Add''],
      [''Customer Centric'', ''Moving Forward'', ''Circle Back'', ''Touch Base'',
       ''Take This Offline'']]"
    by code_simp
  have mk: "marked demo_board = center_only"
    by code_simp
  from generate_board_layout[OF d n, of demo_rng] obtain selected b' where
    r: "random_sample demo_rng (buzzwords ?init) 24 = Inr selected"
    and g: "generate_board demo_rng ?init = (None, b')"
    and c: "non_center_cells (board b') = selected" "distinct selected"
      "set selected \<subseteq> set (buzzwords ?init)"
    by blast
  from g have b': "b' = demo_board"
    unfolding demo_board_def by simp
  have p: "buzzwords ?init = demo_pool"
    by simp
  from r g c d n lit mk show ?thesis
    unfolding b' p by (intro conjI) simp_all
qed

subsection \<open>C5: when generation fails\<close>

text \<open>
  Claim C5. \<open>generate_board\<close> raises exactly when the pool has fewer than 24 entries: it
  then raises the ValueError of \<open>random.sample\<close> before anything is assigned, and with 24
  entries or more it returns. The constructor \<open>BingoBoard(buzzwords)\<close>, which \<open>main\<close>
  calls at startup without a handler, fails in exactly the same case.
\<close>

theorem generate_board_fails_iff:
  "(fst (generate_board rng b) \<noteq> None \<longleftrightarrow> length (buzzwords b) < 24) \<and>
   (length (buzzwords b) < 24 \<longrightarrow> generate_board rng b = (Some ValueError, b)) \<and>
   ((\<exists>e. new_BingoBoard rng words = Inl e) \<longleftrightarrow> length words < 24) \<and>
   (length words < 24 \<longrightarrow> new_BingoBoard rng words = Inl ValueError)"
proof -
  have ok: "fst (generate_board rng' c) = None" if "24 \<le> length (buzzwords c)" for rng' c
    using generate_board_ok[OF that, of rng'] by auto
  have bad: "generate_board rng' c = (Some ValueError, c)" if "length (buzzwords c) < 24" for rng' c
    using that by (rule generate_board_fails)
  have 1: "fst (generate_board rng b) \<noteq> None \<longleftrightarrow> length (buzzwords b) < 24"
    using ok[of b rng] bad[of b rng] by (cases "length (buzzwords b) < 24") simp_all
  let ?init = "\<lparr>buzzwords = words, board = [], marked = []\<rparr>"
  have 3: "new_BingoBoard rng words = Inl ValueError" if "length words < 24"
    using bad[of ?init rng] that by (simp add: new_BingoBoard_def)
  have 4: "\<exists>b'. new_BingoBoard rng words = Inr b'" if "24 \<le> length words"
    using ok[of ?init rng] that
    by (cases "generate_board rng ?init") (simp add: new_BingoBoard_def)
  have 5: "(\<exists>e. new_BingoBoard rng words = Inl e) \<longleftrightarrow> length words < 24"
    using 3 4 by (cases "length words < 24") auto
  from 1 bad[of b rng] 5 3 show ?thesis
    by blast
qed

theorem generate_board_fails_iff_witness:
  "length (take 23 demo_pool) < 24 \<and>
   generate_board demo_rng \<lparr>buzzwords = take 23 demo_pool, board = [], marked = []\<rparr>
     = (Some ValueError, \<lparr>buzzwords = take 23 demo_pool, board = [], marked = []\<rparr>) \<and>
   new_BingoBoard demo_rng (take 23 demo_pool) = Inl ValueError \<and>
   \<not> length (take 24 demo_pool) < 24 \<and>
   fst (generate_board demo_rng \<lparr>buzzwords = take 24 demo_pool, board = [], marked = []\<rparr>) = None \<and>
   (\<nexists>e. new_BingoBoard demo_rng (take 24 demo_pool) = Inl e)"
proof -
  let ?short = "\<lparr>buzzwords = take 23 demo_pool, board = [], marked = []\<rparr>"
  let ?enough = "\<lparr>buzzwords = take 24 demo_pool, board = [], marked = []\<rparr>"
  have s: "length (take 23 demo_pool) < 24" and e: "\<not> length (take 24 demo_pool) < 24"
    by (simp_all add: demo_pool_def)
  have bs: "buzzwords ?short = take 23 demo_pool" and be: "buzzwords ?enough = take 24 demo_pool"
    by simp_all
  note t1 = generate_board_fails_iff[of demo_rng ?short "take 23 demo_pool"]
  note t2 = generate_board_fails_iff[of demo_rng ?enough "take 24 demo_pool"]
  from t1 s have "generate_board demo_rng ?short = (Some ValueError, ?short)"
    "new_BingoBoard demo_rng (take 23 demo_pool) = Inl ValueError"
    unfolding bs by blast+
  moreover from t2 e have "fst (generate_board demo_rng ?enough) = None"
    "\<nexists>e. new_BingoBoard demo_rng (take 24 demo_pool) = Inl e"
    unfolding be by blast+
  ultimately show ?thesis
    using s e by (intro conjI)
qed

subsection \<open>Every reachable board has a valid marked grid\<close>

lemma py_index_bound: "py_index xs k = Inr i \<Longrightarrow> i < length xs"
  by (auto simp add: py_index_def split: if_splits)

lemma toggle_mark_keeps_valid:
  assumes v: "valid_marks (marked b)"
  shows "valid_marks (marked (snd (toggle_mark b row col)))"
proof (cases "fst (toggle_mark b row col) = None \<and> (row, col) \<noteq> free_space_pos")
  case False
  then have "snd (toggle_mark b row col) = b"
    by (auto simp add: toggle_mark_def split: sum.splits)
  with v show ?thesis by simp
next
  case True
  then obtain x m where s: "set_cell (marked b) row col x = Inr m"
    and t: "snd (toggle_mark b row col) = b\<lparr>marked := m\<rparr>"
    by (auto simp add: toggle_mark_def split: sum.splits)
  from s obtain i j where i: "py_index (marked b) row = Inr i"
    and m: "m = (marked b)[i := (marked b ! i)[j := x]]"
    by (auto simp add: set_cell_def split: sum.splits)
  have "i < 5"
    using py_index_bound[OF i] v by (simp add: valid_marks_def)
  then show ?thesis
    unfolding t m using valid_marks_update[OF v] by simp
qed

lemma apply_op_keeps_valid:
  "valid_marks (marked b) \<Longrightarrow> valid_marks (marked (apply_op b op))"
proof (cases op)
  case (Generate rng)
  assume "valid_marks (marked b)"
  then show ?thesis
    using generate_board_marks_cases[of rng b] valid_center_only by (auto simp add: Generate)
qed (simp_all add: toggle_mark_keeps_valid reset_marks_eq valid_center_only)

lemma run_ops_keeps_valid:
  "valid_marks (marked b) \<Longrightarrow> valid_marks (marked (run_ops b ops))"
  by (induction ops arbitrary: b) (simp_all add: apply_op_keeps_valid)

lemma new_BingoBoard_valid:
  assumes "new_BingoBoard rng words = Inr b"
  shows "valid_marks (marked (run_ops b ops))"
proof -
  from assms have "generate_board rng \<lparr>buzzwords = words, board = [], marked = []\<rparr> = (None, b)"
    by (auto simp add: new_BingoBoard_def split: prod.splits option.splits)
  then have "marked b = center_only" by (rule generate_board_marks)
  then have "valid_marks (marked b)" by (simp add: valid_center_only)
  then show ?thesis by (rule run_ops_keeps_valid)
qed

subsection \<open>Callbacks of the session\<close>

lemma py_range_lit: "py_range 5 = [0, 1, 2, 3, 4]"
  by (simp add: py_range_def upto_rec1)

lemma first_error_None: "\<forall>x \<in> set xs. \<exists>v. x = Inr v \<Longrightarrow> first_error xs = None"
  by (induction xs) auto

lemma first_error_grid:
  assumes "\<And>r c. r \<in> set R \<Longrightarrow> c \<in> set R \<Longrightarrow> \<exists>v. f r c = Inr v"
  shows "first_error (concat (map (\<lambda>row. map (\<lambda>col. f row col) R) R)) = None"
  by (rule first_error_None) (use assms in auto)

lemma update_display_valid:
  assumes v: "valid_marks (marked (ui_board ui))"
  shows "update_display ui = None"
  unfolding update_display_def py_range_lit
proof (rule first_error_grid)
  fix r c :: int
  assume "r \<in> set [0, 1, 2, 3, 4]" "c \<in> set [0, 1, 2, 3, 4]"
  then have "0 \<le> r" "r < 5" "0 \<le> c" "c < 5" by auto
  from get_cell_valid[OF v this] show "\<exists>x. get_cell (marked (ui_board ui)) r c = Inr x"
    by blast
qed

lemma toggle_mark_tile:
  assumes v: "valid_marks (marked b)" and r: "0 \<le> row" "row < 5" "0 \<le> col" "col < 5"
  shows "\<exists>b'. toggle_mark b row col = (None, b') \<and> valid_marks (marked b')"
proof (cases "(row, col) = free_space_pos")
  case True
  then show ?thesis using v by (simp add: toggle_mark_def)
next
  case False
  have "nat row < 5" using r by simp
  then have "valid_marks ((marked b)[nat row :=
      (marked b ! nat row)[nat col := \<not> marked b ! nat row ! nat col]])"
    by (rule valid_marks_update[OF v])
  then show ?thesis
    unfolding toggle_mark_valid[OF v r False] by simp
qed

lemma check_bingo_returns:
  "valid_marks (marked b) \<Longrightarrow> \<exists>ws. check_bingo b = Inr ws"
  by (simp add: check_bingo_valid)

lemma dismiss_bingo_keeps:
  "ui_board (dismiss_bingo ui) = ui_board ui"
  "winning_lines (dismiss_bingo ui) = winning_lines ui"
  "bingo_active (dismiss_bingo ui) = bingo_active ui"
  "celebrations (dismiss_bingo ui) = celebrations ui"
  by (simp_all add: dismiss_bingo_def)

lemma check_and_show_bingo_valid:
  assumes c: "check_bingo (ui_board ui) = Inr ws" and v: "valid_marks (marked (ui_board ui))"
  shows "\<exists>ui'. check_and_show_bingo ui = (None, ui') \<and>
      ui_board ui' = ui_board ui \<and> winning_lines ui' = ws \<and>
      bingo_active ui' = (bingo_active ui \<or> ws \<noteq> []) \<and>
      celebrations ui' = celebrations ui + (if \<not> bingo_active ui \<and> ws \<noteq> [] then 1 else 0)"
  by (cases "ws = []"; cases "bingo_active ui")
     (simp_all add: check_and_show_bingo_def c Let_def dismiss_bingo_keeps
        update_display_valid v)

lemma on_tile_click_tile:
  assumes v: "valid_marks (marked (ui_board ui))"
    and r: "0 \<le> row" "row < 5" "0 \<le> col" "col < 5"
  shows "\<exists>ui'. on_tile_click ui row col = (None, ui') \<and>
      valid_marks (marked (ui_board ui')) \<and>
      check_bingo (ui_board ui') = Inr (winning_lines ui') \<and>
      bingo_active ui' = (bingo_active ui \<or> winning_lines ui' \<noteq> []) \<and>
      celebrations ui' = celebrations ui +
        (if \<not> bingo_active ui \<and> winning_lines ui' \<noteq> [] then 1 else 0)"
proof -
  from toggle_mark_tile[OF v r] obtain b' where
    b': "toggle_mark (ui_board ui) row col = (None, b')" "valid_marks (marked b')"
    by blast
  from check_bingo_returns[OF b'(2)] obtain ws where ws: "check_bingo b' = Inr ws"
    by blast
  let ?ui1 = "ui\<lparr>ui_board := b'\<rparr>"
  have c1: "check_bingo (ui_board ?ui1) = Inr ws" and v1: "valid_marks (marked (ui_board ?ui1))"
    using ws b'(2) by simp_all
  from check_and_show_bingo_valid[OF c1 v1] obtain ui' where
    u: "check_and_show_bingo ?ui1 = (None, ui')" "ui_board ui' = ui_board ?ui1"
      "winning_lines ui' = ws" "bingo_active ui' = (bingo_active ?ui1 \<or> ws \<noteq> [])"
      "celebrations ui' = celebrations ?ui1 + (if \<not> bingo_active ?ui1 \<and> ws \<noteq> [] then 1 else 0)"
    by blast
  have "on_tile_click ui row col = (None, ui')"
    by (simp add: on_tile_click_def b'(1) u(1) update_display_valid[OF v1])
  moreover have "valid_marks (marked (ui_board ui'))"
    "check_bingo (ui_board ui') = Inr (winning_lines ui')"
    using u(2,3) b'(2) ws by simp_all
  ultimately show ?thesis
    using u(3,4,5) by simp
qed

text \<open>
  One callback from a state in which \<open>winning_lines\<close> is the result of \<open>check_bingo\<close> on
  the board and is empty as long as no win has been seen.
\<close>

lemma handle_event_step:
  assumes v: "valid_marks (marked (ui_board ui))"
    and s: "check_bingo (ui_board ui) = Inr (winning_lines ui)"
    and i: "\<not> bingo_active ui \<longrightarrow> winning_lines ui = []"
    and t: "tile_event ev"
  shows "\<exists>ui'. handle_event ui ev = (None, ui') \<and>
      valid_marks (marked (ui_board ui')) \<and>
      check_bingo (ui_board ui') = Inr (winning_lines ui') \<and>
      (\<not> bingo_active ui' \<longrightarrow> winning_lines ui' = []) \<and>
      bingo_active ui' = (bingo_active ui \<or> winning_lines ui' \<noteq> []) \<and>
      celebrations ui' = celebrations ui +
        (if \<not> bingo_active ui \<and> winning_lines ui' \<noteq> [] then 1 else 0)"
proof (cases ev)
  case (Click row col)
  with t have r: "0 \<le> row" "row < 5" "0 \<le> col" "col < 5"
    by simp_all
  from on_tile_click_tile[OF v r] show ?thesis
    unfolding Click handle_event.simps by blast
next
  case Dismiss
  from v s i show ?thesis
    unfolding Dismiss handle_event.simps by (auto simp add: dismiss_bingo_keeps)
qed

lemma won_after_0:
  "check_bingo (ui_board ui) = Inr ws \<Longrightarrow> won_after ui evs 0 = (ws \<noteq> [])"
  by (simp add: won_after_def)

lemma won_after_Suc:
  "handle_event ui ev = (None, ui1) \<Longrightarrow> won_after ui (ev # evs) (Suc k) = won_after ui1 evs k"
  by (simp add: won_after_def)

lemma won_by_iff: "won_by ui evs n \<longleftrightarrow> (\<exists>k. 1 \<le> k \<and> k \<le> n \<and> won_after ui evs k)"
  unfolding won_by_def list_ex_iff by auto

lemma won_by_Cons:
  assumes "handle_event ui ev = (None, ui1)"
  shows "won_by ui (ev # evs) (Suc n) \<longleftrightarrow> won_after ui1 evs 0 \<or> won_by ui1 evs n"
proof -
  have "(\<exists>k. 1 \<le> k \<and> k \<le> Suc n \<and> won_after ui (ev # evs) k)
      \<longleftrightarrow> (\<exists>j. j \<le> n \<and> won_after ui (ev # evs) (Suc j))"
    by (metis Suc_le_mono Suc_le_D One_nat_def le_add1 plus_1_eq_Suc)
  also have "\<dots> \<longleftrightarrow> (\<exists>j. j \<le> n \<and> won_after ui1 evs j)"
    unfolding won_after_Suc[OF assms] ..
  also have "\<dots> \<longleftrightarrow> won_after ui1 evs 0 \<or> (\<exists>k. 1 \<le> k \<and> k \<le> n \<and> won_after ui1 evs k)"
    by (metis One_nat_def Suc_le_eq le0 not_gr_zero)
  finally show ?thesis
    unfolding won_by_iff .
qed

lemma run_events_count:
  assumes "valid_marks (marked (ui_board ui))"
    "check_bingo (ui_board ui) = Inr (winning_lines ui)"
    "\<not> bingo_active ui \<longrightarrow> winning_lines ui = []"
    "list_all tile_event evs"
  shows "\<exists>ui'. run_events ui evs = (None, ui') \<and>
      check_bingo (ui_board ui') = Inr (winning_lines ui') \<and>
      bingo_active ui' = (bingo_active ui \<or> won_by ui evs (length evs)) \<and>
      celebrations ui' = celebrations ui +
        (if \<not> bingo_active ui \<and> won_by ui evs (length evs) then 1 else 0)"
  using assms
proof (induction evs arbitrary: ui)
  case Nil
  then show ?case by (simp add: won_by_def)
next
  case (Cons ev evs)
  from Cons.prems have t: "tile_event ev" and ts: "list_all tile_event evs"
    by simp_all
  from handle_event_step[OF Cons.prems(1,2,3) t] obtain ui1 where
    s: "handle_event ui ev = (None, ui1)" "valid_marks (marked (ui_board ui1))"
      "check_bingo (ui_board ui1) = Inr (winning_lines ui1)"
      "\<not> bingo_active ui1 \<longrightarrow> winning_lines ui1 = []"
      "bingo_active ui1 = (bingo_active ui \<or> winning_lines ui1 \<noteq> [])"
      "celebrations ui1 = celebrations ui +
         (if \<not> bingo_active ui \<and> winning_lines ui1 \<noteq> [] then 1 else 0)"
    by blast
  from Cons.IH[OF s(2,3,4) ts] obtain ui' where
    r: "run_events ui1 evs = (None, ui')"
      "check_bingo (ui_board ui') = Inr (winning_lines ui')"
      "bingo_active ui' = (bingo_active ui1 \<or> won_by ui1 evs (length evs))"
      "celebrations ui' = celebrations ui1 +
         (if \<not> bingo_active ui1 \<and> won_by ui1 evs (length evs) then 1 else 0)"
    by blast
  have run: "run_events ui (ev # evs) = (None, ui')"
    by (simp add: s(1) r(1))
  have w: "won_by ui (ev # evs) (length (ev # evs))
      \<longleftrightarrow> winning_lines ui1 \<noteq> [] \<or> won_by ui1 evs (length evs)"
    using won_by_Cons[OF s(1), of evs "length evs"] won_after_0[OF s(3), of evs]
    by simp
  have act: "bingo_active ui' = (bingo_active ui \<or> won_by ui (ev # evs) (length (ev # evs)))"
    unfolding w r(3) s(5) by blast
  have cnt: "celebrations ui' = celebrations ui +
        (if \<not> bingo_active ui \<and> won_by ui (ev # evs) (length (ev # evs)) then 1 else 0)"
    unfolding w r(4) s(5,6) by auto
  from run r(2) act cnt show ?case
    by blast
qed

lemma phase_idle_iff: "phase_of ui = Idle \<longleftrightarrow> \<not> bingo_active ui"
  by (simp add: phase_of_def)

lemma won_by_take: "won_by ui (take n evs) n = won_by ui evs n"
proof -
  have "won_after ui (take n evs) k = won_after ui evs k" if "k \<le> n" for k
    using that by (simp add: won_after_def min_def)
  then show ?thesis
    unfolding won_by_iff by blast
qed

text \<open>The three ways in which the program makes a fresh session.\<close>

lemma fresh_session:
  assumes "new_BingoUI rng words = Inr ui \<or> new_board rng u = (None, ui)
      \<or> ui_reset_marks u = (None, ui)"
  shows "marked (ui_board ui) = center_only \<and> \<not> bingo_active ui \<and> winning_lines ui = []"
  using assms
proof (elim disjE)
  assume "new_BingoUI rng words = Inr ui"
  then obtain b where b: "new_BingoBoard rng words = Inr b" and ui: "ui_board ui = b"
    "\<not> bingo_active ui" "winning_lines ui = []"
    by (auto simp add: new_BingoUI_def Let_def split: sum.splits option.splits)
  from b have "generate_board rng \<lparr>buzzwords = words, board = [], marked = []\<rparr> = (None, b)"
    by (auto simp add: new_BingoBoard_def split: prod.splits option.splits)
  then have "marked b = center_only" by (rule generate_board_marks)
  with ui show ?thesis by simp
next
  assume "new_board rng u = (None, ui)"
  then obtain b where b: "generate_board rng (ui_board u) = (None, b)"
    and ui: "ui = clear_celebration (u\<lparr>ui_board := b\<rparr>)"
    by (auto simp add: new_board_def Let_def split: prod.splits option.splits)
  from b have "marked b = center_only" by (rule generate_board_marks)
  then show ?thesis by (simp add: ui clear_celebration_def)
next
  assume "ui_reset_marks u = (None, ui)"
  then show ?thesis
    by (auto simp add: ui_reset_marks_def reset_marks_eq Let_def clear_celebration_def)
qed

text \<open>The demo session after its first five events and at its end.\<close>

lemma demo_ui_fresh: "new_BingoUI demo_rng demo_pool = Inr demo_ui"
  by code_simp

lemma demo_run_5:
  "run_events demo_ui (take 5 demo_events) =
     (None, \<lparr>ui_board = demo_board\<lparr>marked :=
        [[False, False, False, False, False],
         [False, False, False, False, False],
         [True, True, True, True, True],
         [False, False, False, False, False],
         [False, False, False, False, False]]\<rparr>,
      bingo_active = True, winning_lines = [(''row'', 2)],
      continue_button_enabled = True, banner_visible = True,
      confetti_visible = True, celebrations = 1\<rparr>)"
  by code_simp

lemma demo_run_12:
  "run_events demo_ui (take 12 demo_events) =
     (None, \<lparr>ui_board = demo_board\<lparr>marked :=
        [[True, False, False, False, False],
         [True, False, False, False, False],
         [True, True, True, True, True],
         [True, False, False, False, False],
         [True, False, False, False, False]]\<rparr>,
      bingo_active = True, winning_lines = [(''row'', 2), (''col'', 0)],
      continue_button_enabled = False, banner_visible = False,
      confetti_visible = False, celebrations = 1\<rparr>)"
  by code_simp

subsection \<open>C4: the celebration fires once\<close>

text \<open>
  Claim C4. Take a fresh session, as \<open>BingoUI(root, buzzwords)\<close>, \<open>new_board\<close> or
  \<open>reset_marks\<close> leaves it, and any run of tile clicks and clicks on the continue button.
  The session starts in phase Idle. After each number \<open>n\<close> of events the callbacks have
  returned, \<open>winning_lines\<close> is the result of \<open>check_bingo\<close> on the current board, the
  celebration has run exactly once if a complete line was there after one of the events
  \<open>1..n\<close> and has not run otherwise, and the phase is Idle exactly when no such line was
  there. So the celebration runs at the first click that completes a line, and no later
  click, in Celebrating or Acknowledged, makes it run again, whatever lines complete.
\<close>

theorem celebration_fires_once:
  assumes fresh: "new_BingoUI rng words = Inr ui \<or> new_board rng u = (None, ui)
      \<or> ui_reset_marks u = (None, ui)"
    and t: "list_all tile_event evs"
  shows "phase_of ui = Idle \<and>
    (\<forall>n\<le>length evs. \<exists>ui'. run_events ui (take n evs) = (None, ui') \<and>
       check_bingo (ui_board ui') = Inr (winning_lines ui') \<and>
       celebrations ui' = celebrations ui + (if won_by ui evs n then 1 else 0) \<and>
       (phase_of ui' = Idle \<longleftrightarrow> \<not> won_by ui evs n))"
proof (intro conjI allI impI)
  note f = fresh_session[OF fresh]
  from f show idle: "phase_of ui = Idle"
    by (simp add: phase_idle_iff)
  fix n
  assume n: "n \<le> length evs"
  have v: "valid_marks (marked (ui_board ui))"
    using f by (simp add: valid_center_only)
  have s: "check_bingo (ui_board ui) = Inr (winning_lines ui)"
    using f by (simp add: check_bingo_center_only)
  have i: "\<not> bingo_active ui \<longrightarrow> winning_lines ui = []"
    using f by simp
  have tn: "list_all tile_event (take n evs)"
    using t unfolding list_all_iff by (blast dest: in_set_takeD)
  have len: "length (take n evs) = n"
    using n by simp
  from run_events_count[OF v s i tn] f
  show "\<exists>ui'. run_events ui (take n evs) = (None, ui') \<and>
       check_bingo (ui_board ui') = Inr (winning_lines ui') \<and>
       celebrations ui' = celebrations ui + (if won_by ui evs n then 1 else 0) \<and>
       (phase_of ui' = Idle \<longleftrightarrow> \<not> won_by ui evs n)"
    unfolding phase_idle_iff len won_by_take by auto
qed

text \<open>
  The demo run: row 2 is complete after event 5, the banner is dismissed, a mark of row 2
  is taken back, column 0 is complete after event 11 and row 2 again after event 12. The
  celebration runs at event 5 only.
\<close>

theorem celebration_fires_once_witness:
  "new_BingoUI demo_rng demo_pool = Inr demo_ui \<and> list_all tile_event demo_events \<and>
   phase_of demo_ui = Idle \<and> celebrations demo_ui = 0 \<and>
   fst (run_events demo_ui (take 5 demo_events)) = None \<and>
   check_bingo (ui_board (snd (run_events demo_ui (take 5 demo_events))))
     = Inr (winning_lines (snd (run_events demo_ui (take 5 demo_events)))) \<and>
   winning_lines (snd (run_events demo_ui (take 5 demo_events))) = [(''row'', 2)] \<and>
   celebrations (snd (run_events demo_ui (take 5 demo_events))) = 1 \<and>
   phase_of (snd (run_events demo_ui (take 5 demo_events))) = Celebrating \<and>
   fst (run_events demo_ui (take 12 demo_events)) = None \<and>
   check_bingo (ui_board (snd (run_events demo_ui (take 12 demo_events))))
     = Inr (winning_lines (snd (run_events demo_ui (take 12 demo_events)))) \<and>
   winning_lines (snd (run_events demo_ui (take 12 demo_events)))
     = [(''row'', 2), (''col'', 0)] \<and>
   celebrations (snd (run_events demo_ui (take 12 demo_events))) = 1 \<and>
   phase_of (snd (run_events demo_ui (take 12 demo_events))) = Acknowledged"
proof -
  let ?s5 = "snd (run_events demo_ui (take 5 demo_events))"
  let ?s12 = "snd (run_events demo_ui (take 12 demo_events))"
  have fresh: "new_BingoUI demo_rng demo_pool = Inr demo_ui
      \<or> new_board demo_rng demo_ui = (None, demo_ui)
      \<or> ui_reset_marks demo_ui = (None, demo_ui)"
    using demo_ui_fresh by (rule disjI1)
  have t: "list_all tile_event demo_events"
    by (simp add: demo_events_def)
  have z: "celebrations demo_ui = 0"
    by (simp add: demo_ui_def)
  have n: "5 \<le> length demo_events" "12 \<le> length demo_events"
    by (simp_all add: demo_events_def)
  have r: "fst (run_events demo_ui (take 5 demo_events)) = None"
    "fst (run_events demo_ui (take 12 demo_events)) = None"
    by (simp_all only: demo_run_5 demo_run_12 fst_conv)
  have f5: "winning_lines ?s5 = [(''row'', 2)]" "celebrations ?s5 = 1"
    "bingo_active ?s5" "continue_button_enabled ?s5"
    by (simp_all only: demo_run_5 snd_conv BingoUI.simps)
  have f12: "winning_lines ?s12 = [(''row'', 2), (''col'', 0)]" "celebrations ?s12 = 1"
    "bingo_active ?s12" "\<not> continue_button_enabled ?s12"
    by (simp_all only: demo_run_12 snd_conv BingoUI.simps simp_thms)
  have p5: "phase_of ?s5 = Celebrating"
    using f5(3,4) by (simp add: phase_of_def)
  have p12: "phase_of ?s12 = Acknowledged"
    using f12(3,4) by (simp add: phase_of_def)
  note inst = celebration_fires_once[OF fresh t]
  note idle = inst[THEN conjunct1]
  note all = inst[THEN conjunct2, rule_format]
  from all[OF n(1)] have c5: "check_bingo (ui_board ?s5) = Inr (winning_lines ?s5)"
    by (elim exE conjE) (simp only: snd_conv)
  from all[OF n(2)] have c12: "check_bingo (ui_board ?s12) = Inr (winning_lines ?s12)"
    by (elim exE conjE) (simp only: snd_conv)
  from demo_ui_fresh t idle z r(1) c5 f5(1,2) p5 r(2) c12 f12(1,2) p12 show ?thesis
    by (intro conjI)
qed

subsection \<open>C7: resetting the marks\<close>

text \<open>
  Claim C7. \<open>reset_marks\<close> always returns; it leaves the phrase grid (and the pool)
  unchanged, and afterwards the center cell is marked and every other cell is unmarked.
  At the session level \<open>reset_marks\<close> of \<open>BingoUI\<close> returns, resets the marks of the board,
  empties \<open>winning_lines\<close> and puts the session in phase Idle.
\<close>

theorem reset_marks_effect:
  "(\<exists>b'. reset_marks b = (None, b') \<and> board b' = board b \<and> buzzwords b' = buzzwords b \<and>
      marked b' = center_only \<and>
      (\<forall>row col. 0 \<le> row \<and> row < 5 \<and> 0 \<le> col \<and> col < 5 \<longrightarrow>
         get_cell (marked b') row col = Inr (row = 2 \<and> col = 2))) \<and>
   (\<exists>ui'. ui_reset_marks ui = (None, ui') \<and>
      ui_board ui' = snd (reset_marks (ui_board ui)) \<and>
      winning_lines ui' = [] \<and> phase_of ui' = Idle)"
proof (intro conjI)
  let ?b' = "b\<lparr>marked := center_only\<rparr>"
  have "\<forall>row col. 0 \<le> row \<and> row < 5 \<and> 0 \<le> col \<and> col < 5 \<longrightarrow>
         get_cell (marked ?b') row col = Inr (row = 2 \<and> col = 2)"
    using center_only_cells by simp
  moreover have "board ?b' = board b" "buzzwords ?b' = buzzwords b" "marked ?b' = center_only"
    by simp_all
  ultimately show "\<exists>b'. reset_marks b = (None, b') \<and> board b' = board b \<and>
      buzzwords b' = buzzwords b \<and> marked b' = center_only \<and>
      (\<forall>row col. 0 \<le> row \<and> row < 5 \<and> 0 \<le> col \<and> col < 5 \<longrightarrow>
         get_cell (marked b') row col = Inr (row = 2 \<and> col = 2))"
    using reset_marks_eq[of b] by blast
next
  let ?ui1 = "clear_celebration (ui\<lparr>ui_board := ui_board ui\<lparr>marked := center_only\<rparr>\<rparr>)"
  have "valid_marks (marked (ui_board ?ui1))"
    by (simp add: clear_celebration_def valid_center_only)
  then have "update_display ?ui1 = None"
    by (rule update_display_valid)
  then have "ui_reset_marks ui = (None, ?ui1)"
    by (simp add: ui_reset_marks_def reset_marks_eq)
  moreover have "ui_board ?ui1 = snd (reset_marks (ui_board ui))"
    "winning_lines ?ui1 = []" "phase_of ?ui1 = Idle"
    by (simp_all add: reset_marks_eq clear_celebration_def phase_of_def)
  ultimately show "\<exists>ui'. ui_reset_marks ui = (None, ui') \<and>
      ui_board ui' = snd (reset_marks (ui_board ui)) \<and>
      winning_lines ui' = [] \<and> phase_of ui' = Idle"
    by blast
qed

theorem reset_marks_effect_witness:
  "marked both_diagonals \<noteq> center_only \<and>
   phase_of (snd (run_events demo_ui (take 5 demo_events))) = Celebrating \<and>
   winning_lines (snd (run_events demo_ui (take 5 demo_events))) = [(''row'', 2)] \<and>
   (\<exists>b'. reset_marks both_diagonals = (None, b') \<and> board b' = board both_diagonals \<and>
      marked b' = center_only \<and> get_cell (marked b') 2 2 = Inr True \<and>
      get_cell (marked b') 0 0 = Inr False) \<and>
   (\<exists>ui'. ui_reset_marks (snd (run_events demo_ui (take 5 demo_events))) = (None, ui') \<and>
      winning_lines ui' = [] \<and> phase_of ui' = Idle)"
proof -
  let ?won = "snd (run_events demo_ui (take 5 demo_events))"
  have m: "marked both_diagonals \<noteq> center_only"
    by code_simp
  have p: "phase_of ?won = Celebrating" and w: "winning_lines ?won = [(''row'', 2)]"
    unfolding demo_run_5 by (simp_all add: phase_of_def)
  note r = reset_marks_effect[of both_diagonals ?won]
  from r obtain b' where b': "reset_marks both_diagonals = (None, b')"
    "board b' = board both_diagonals" "marked b' = center_only"
    "\<forall>row col. 0 \<le> row \<and> row < 5 \<and> 0 \<le> col \<and> col < 5 \<longrightarrow>
         get_cell (marked b') row col = Inr (row = 2 \<and> col = 2)"
    by blast
  from b'(4) have "get_cell (marked b') 2 2 = Inr True" "get_cell (marked b') 0 0 = Inr False"
    by simp_all
  with b' have 1: "\<exists>b'. reset_marks both_diagonals = (None, b') \<and>
      board b' = board both_diagonals \<and> marked b' = center_only \<and>
      get_cell (marked b') 2 2 = Inr True \<and> get_cell (marked b') 0 0 = Inr False"
    by blast
  from r have 2: "\<exists>ui'. ui_reset_marks ?won = (None, ui') \<and>
      winning_lines ui' = [] \<and> phase_of ui' = Idle"
    by blast
  from m p w 1 2 show ?thesis
    by (intro conjI)
qed

subsection \<open>C6: the free cell stays marked\<close>







text \<open>
  The condition on the coordinates cannot be dropped: \<open>toggle_mark\<close> compares the pair
  \<open>(row, col)\<close> with \<open>(2, 2)\<close> and checks no range, and Python's index \<open>-3\<close> addresses
  position 2 of a list of five. No tile has such a coordinate.
\<close>

lemma toggle_mark_negative_index:
  "center_marked demo_board \<and>
   fst (toggle_mark demo_board (- 3) (- 3)) = None \<and>
   \<not> center_marked (snd (toggle_mark demo_board (- 3) (- 3)))"
  by code_simp

end
